theory Spec2Isabelle
  imports Complex_Main "HOL-Library.Log_Nat"
begin

section \<open>Python strings\<close>

text \<open>
  A Python \<^verbatim>\<open>str\<close> is modelled as a \<^typ>\<open>string\<close> whose characters are the code points
  0..255 (so \<^verbatim>\<open>e-circumflex\<close> of the monthly marker is \<open>CHR 0xEA\<close>).  The string methods
  below are the ones \<^verbatim>\<open>app.py\<close> calls, with the behaviour CPython gives them on that range.
\<close>

definition is_space :: "char \<Rightarrow> bool" where
  \<comment> \<open>\<^verbatim>\<open>str.isspace\<close> on one code point below 256\<close>
  "is_space c = (c \<in> set [CHR 0x09, CHR 0x0A, CHR 0x0B, CHR 0x0C, CHR 0x0D, CHR 0x1C, CHR 0x1D,
                            CHR 0x1E, CHR 0x1F, CHR 0x20, CHR 0x85, CHR 0xA0])"

definition strip :: "string \<Rightarrow> string" where
  \<comment> \<open>\<^verbatim>\<open>s.strip()\<close>\<close>
  "strip s = rev (dropWhile is_space (rev (dropWhile is_space s)))"

fun split_on :: "char \<Rightarrow> string \<Rightarrow> string list" where
  \<comment> \<open>\<^verbatim>\<open>s.split(sep)\<close> for a separator of one character\<close>
  "split_on sep [] = [[]]"
| "split_on sep (c # cs) =
     (if c = sep then [] # split_on sep cs
      else (case split_on sep cs of l # ls \<Rightarrow> (c # l) # ls | [] \<Rightarrow> [[c]]))"

fun startswith :: "string \<Rightarrow> string \<Rightarrow> bool" where
  \<comment> \<open>\<^verbatim>\<open>s.startswith(p)\<close>\<close>
  "startswith s [] = True"
| "startswith [] (p # ps) = False"
| "startswith (c # cs) (p # ps) = (c = p \<and> startswith cs ps)"

fun replace :: "string \<Rightarrow> string \<Rightarrow> string \<Rightarrow> string" where
  \<comment> \<open>\<^verbatim>\<open>s.replace(old, new)\<close>: every occurrence, left to right, without overlap\<close>
  "replace s [] new = new @ concat (map (\<lambda>c. c # new) s)"
| "replace [] (p # ps) new = []"
| "replace (c # cs) (p # ps) new =
     (if startswith (c # cs) (p # ps) then new @ replace (drop (length ps) cs) (p # ps) new
      else c # replace cs (p # ps) new)"

definition upper_chars :: string where
  \<comment> \<open>the cased code points below 256 that \<^verbatim>\<open>str.lower\<close> changes: A-Z, and U+00C0..U+00DE
      but the multiplication sign U+00D7\<close>
  "upper_chars =
     ''ABCDEFGHIJKLMNOPQRSTUVWXYZ'' @
       [CHR 0xC0, CHR 0xC1, CHR 0xC2, CHR 0xC3, CHR 0xC4, CHR 0xC5, CHR 0xC6, CHR 0xC7,
        CHR 0xC8, CHR 0xC9, CHR 0xCA, CHR 0xCB, CHR 0xCC, CHR 0xCD, CHR 0xCE, CHR 0xCF,
        CHR 0xD0, CHR 0xD1, CHR 0xD2, CHR 0xD3, CHR 0xD4, CHR 0xD5, CHR 0xD6, CHR 0xD8,
        CHR 0xD9, CHR 0xDA, CHR 0xDB, CHR 0xDC, CHR 0xDD, CHR 0xDE]"

definition lower_chars :: string where
  \<comment> \<open>their lower case, 32 code points further\<close>
  "lower_chars =
     ''abcdefghijklmnopqrstuvwxyz'' @
       [CHR 0xE0, CHR 0xE1, CHR 0xE2, CHR 0xE3, CHR 0xE4, CHR 0xE5, CHR 0xE6, CHR 0xE7,
        CHR 0xE8, CHR 0xE9, CHR 0xEA, CHR 0xEB, CHR 0xEC, CHR 0xED, CHR 0xEE, CHR 0xEF,
        CHR 0xF0, CHR 0xF1, CHR 0xF2, CHR 0xF3, CHR 0xF4, CHR 0xF5, CHR 0xF6, CHR 0xF8,
        CHR 0xF9, CHR 0xFA, CHR 0xFB, CHR 0xFC, CHR 0xFD, CHR 0xFE]"

definition lower_char :: "char \<Rightarrow> char" where
  \<comment> \<open>\<^verbatim>\<open>str.lower\<close> on one code point below 256\<close>
  "lower_char c = (case map_of (zip upper_chars lower_chars) c of Some l \<Rightarrow> l | None \<Rightarrow> c)"

definition lower :: "string \<Rightarrow> string" where
  "lower s = map lower_char s"

definition is_digit :: "char \<Rightarrow> bool" where
  \<comment> \<open>the regular expression class \<^verbatim>\<open>\d\<close> below 256, and the digits \<^verbatim>\<open>float\<close> reads\<close>
  "is_digit c = (c \<in> set ''0123456789'')"

definition is_az :: "char \<Rightarrow> bool" where
  \<comment> \<open>the class \<^verbatim>\<open>[a-z]\<close>\<close>
  "is_az c = (c \<in> set ''abcdefghijklmnopqrstuvwxyz'')"

definition is_number_char :: "char \<Rightarrow> bool" where
  \<comment> \<open>the class \<^verbatim>\<open>[\d.]\<close>\<close>
  "is_number_char c = (is_digit c \<or> c = CHR ''.'')"

section \<open>Python floats\<close>

text \<open>
  A \<^verbatim>\<open>float\<close> is an IEEE 754 binary64 number.  \<open>Finite neg m e\<close> stands for
  \<open>(if neg then -1 else 1) * m * 2^e\<close>; every conversion and product is rounded to the
  nearest representable number, ties to the even significand, and overflows to an infinity.
\<close>

datatype py_error = ValueError | OverflowError

datatype pyfloat = Finite bool nat int | Infinity bool | NaN

definition ge_pow2 :: "nat \<Rightarrow> nat \<Rightarrow> int \<Rightarrow> bool" where
  \<comment> \<open>\<open>2^g \<le> p / q\<close>, for \<open>q > 0\<close>\<close>
  "ge_pow2 p q g = (if 0 \<le> g then q * 2 ^ nat g \<le> p else q \<le> p * 2 ^ nat (- g))"

definition ilog2 :: "nat \<Rightarrow> nat \<Rightarrow> int" where
  \<comment> \<open>the binary exponent of \<open>p / q\<close>, that is \<open>\<lfloor>log 2 (p / q)\<rfloor>\<close>, for \<open>p, q > 0\<close>\<close>
  "ilog2 p q = (let g = bitlen (int p) - bitlen (int q) in if ge_pow2 p q g then g else g - 1)"

definition round_half_even :: "nat \<Rightarrow> nat \<Rightarrow> nat" where
  \<comment> \<open>\<open>p / q\<close> rounded to the nearest integer, a tie to the even one\<close>
  "round_half_even p q =
     (let f = p div q; r = p mod q
      in if 2 * r < q then f else if q < 2 * r then f + 1 else if even f then f else f + 1)"

definition scaled_round :: "nat \<Rightarrow> nat \<Rightarrow> int \<Rightarrow> nat" where
  \<comment> \<open>\<open>p / q / 2^e\<close> rounded to the nearest integer, a tie to the even one\<close>
  "scaled_round p q e =
     (if 0 \<le> e then round_half_even p (q * 2 ^ nat e) else round_half_even (p * 2 ^ nat (- e)) q)"

definition to_double :: "bool \<Rightarrow> nat \<Rightarrow> nat \<Rightarrow> pyfloat" where
  \<comment> \<open>the binary64 number nearest to \<open>p / q\<close> (with the sign \<open>neg\<close>): 53 significant bits,
      the exponent of the last place never below -1074 (subnormals), infinity from
      \<open>2^1024\<close> on.  A significand that the rounding carries to \<open>2^53\<close> is written as
      \<open>2^52\<close> with the next exponent and a zero as \<open>0 * 2^0\<close>, so that a number has one
      representation.\<close>
  "to_double neg p q =
     (if p = 0 then Finite neg 0 0
      else let e = max (ilog2 p q) (- 1022) - 52;
               m = scaled_round p q e
           in if 0 \<le> e \<and> 2 ^ 1024 \<le> m * 2 ^ nat e then Infinity neg
              else if m = 0 then Finite neg 0 0
              else if m = 2 ^ 53 then Finite neg (2 ^ 52) (e + 1)
              else Finite neg m e)"

definition float_mul_int :: "pyfloat \<Rightarrow> nat \<Rightarrow> pyfloat" where
  \<comment> \<open>\<^verbatim>\<open>x * k\<close> for a float \<open>x\<close> and an int \<open>0 < k < 2^53\<close> (converted to a float exactly)\<close>
  "float_mul_int x k =
     (case x of
        Finite neg m e \<Rightarrow>
          (if 0 \<le> e then to_double neg (m * k * 2 ^ nat e) 1
           else to_double neg (m * k) (2 ^ nat (- e)))
      | Infinity neg \<Rightarrow> Infinity neg
      | NaN \<Rightarrow> NaN)"

definition py_int :: "pyfloat \<Rightarrow> py_error + int" where
  \<comment> \<open>\<^verbatim>\<open>int(x)\<close>: truncation toward zero; OverflowError on an infinity, ValueError on a NaN\<close>
  "py_int x =
     (case x of
        Finite neg m e \<Rightarrow>
          (let a = (if 0 \<le> e then int m * 2 ^ nat e else int m div 2 ^ nat (- e))
           in Inr (if neg then - a else a))
      | Infinity neg \<Rightarrow> Inl OverflowError
      | NaN \<Rightarrow> Inl ValueError)"

definition float_space :: "char \<Rightarrow> bool" where
  \<comment> \<open>what \<^verbatim>\<open>float(s)\<close> strips at both ends: the ASCII white space, and U+0085 and U+00A0,
      which it turns into spaces first\<close>
  "float_space c = (c \<in> set [CHR 0x09, CHR 0x0A, CHR 0x0B, CHR 0x0C, CHR 0x0D, CHR 0x20,
                               CHR 0x85, CHR 0xA0])"

fun underscores_ok :: "char \<Rightarrow> string \<Rightarrow> bool" where
  \<comment> \<open>an underscore of a numeric literal stands between two digits; the first argument is
      the character before\<close>
  "underscores_ok prev [] = (prev \<noteq> CHR ''_'')"
| "underscores_ok prev (c # cs) =
     ((if c = CHR ''_'' then is_digit prev else if prev = CHR ''_'' then is_digit c else True)
      \<and> underscores_ok c cs)"

definition parse_sign :: "string \<Rightarrow> bool \<times> string" where
  "parse_sign s =
     (case s of
        [] \<Rightarrow> (False, s)
      | c # cs \<Rightarrow> if c = CHR ''-'' then (True, cs) else if c = CHR ''+'' then (False, cs)
                  else (False, s))"

definition digits_val :: "string \<Rightarrow> nat" where
  "digits_val ds = foldl (\<lambda>a c. 10 * a + (of_char c - 48)) 0 ds"

definition parse_exponent :: "string \<Rightarrow> int option" where
  \<comment> \<open>what follows the significand: nothing, or \<^verbatim>\<open>e\<close>, an optional sign and digits\<close>
  "parse_exponent s =
     (case s of
        [] \<Rightarrow> Some 0
      | c # cs \<Rightarrow>
          if c = CHR ''e'' \<or> c = CHR ''E'' then
            (case parse_sign cs of
               (neg, ds) \<Rightarrow>
                 if ds \<noteq> [] \<and> list_all is_digit ds
                 then Some (if neg then - int (digits_val ds) else int (digits_val ds))
                 else None)
          else None)"

definition parse_decimal :: "bool \<Rightarrow> string \<Rightarrow> py_error + pyfloat" where
  \<comment> \<open>digits, an optional point and digits (a digit on one side at least), an optional
      exponent, and nothing else\<close>
  "parse_decimal neg s =
     (let ip = takeWhile is_digit s;
          r1 = dropWhile is_digit s;
          point = startswith r1 ''.'';
          fp = (if point then takeWhile is_digit (tl r1) else []);
          r2 = (if point then dropWhile is_digit (tl r1) else r1)
      in if ip = [] \<and> fp = [] then Inl ValueError
         else (case parse_exponent r2 of
                 None \<Rightarrow> Inl ValueError
               | Some x \<Rightarrow>
                   (let m = digits_val (ip @ fp); ex = x - int (length fp)
                    in Inr (if 0 \<le> ex then to_double neg (m * 10 ^ nat ex) 1
                            else to_double neg m (10 ^ nat (- ex))))))"

definition py_float :: "string \<Rightarrow> py_error + pyfloat" where
  \<comment> \<open>\<^verbatim>\<open>float(s)\<close> on a string\<close>
  "py_float s =
     (if \<not> underscores_ok (CHR 0x00) s then Inl ValueError
      else (case parse_sign (rev (dropWhile float_space (rev (dropWhile float_space
                   (filter (\<lambda>c. c \<noteq> CHR ''_'') s))))) of
              (neg, u) \<Rightarrow>
                if lower u = ''inf'' \<or> lower u = ''infinity'' then Inr (Infinity neg)
                else if lower u = ''nan'' then Inr NaN
                else parse_decimal neg u))"

section \<open>The unit converters\<close>

definition size_units :: "(string \<times> nat) list" where
  "size_units =
     [(''kib'', 1024), (''mib'', 1024 ^ 2), (''gib'', 1024 ^ 3), (''tib'', 1024 ^ 4),
      (''kb'', 1000), (''mb'', 1000 ^ 2), (''gb'', 1000 ^ 3), (''tb'', 1000 ^ 4)]"

definition speed_units :: "(string \<times> nat) list" where
  "speed_units =
     [(''kbit/s'', 1000), (''mbit/s'', 1000 ^ 2), (''gbit/s'', 1000 ^ 3), (''tbit/s'', 1000 ^ 4)]"

definition units_get :: "(string \<times> nat) list \<Rightarrow> string \<Rightarrow> nat" where
  \<comment> \<open>\<^verbatim>\<open>units.get(unit, 1)\<close>\<close>
  "units_get units u = (case map_of units u of Some k \<Rightarrow> k | None \<Rightarrow> 1)"

definition match_size :: "string \<Rightarrow> (string \<times> string) option" where
  \<comment> \<open>the groups of \<^verbatim>\<open>re.match(r'([\d.]+)([a-z]+)', s)\<close>: both classes are disjoint, so the
      greedy match takes the longest run of each\<close>
  "match_size s =
     (let number = takeWhile is_number_char s;
          u = takeWhile is_az (dropWhile is_number_char s)
      in if number = [] \<or> u = [] then None else Some (number, u))"

definition match_speed :: "string \<Rightarrow> (string \<times> string) option" where
  \<comment> \<open>the groups of \<^verbatim>\<open>re.match(r'([\d.]+)([a-z]+/s)', s)\<close>\<close>
  "match_speed s =
     (let number = takeWhile is_number_char s;
          r = dropWhile is_number_char s;
          u = takeWhile is_az r
      in if number = [] \<or> u = [] \<or> \<not> startswith (dropWhile is_az r) ''/s'' then None
         else Some (number, u @ ''/s''))"

definition scaled_int :: "string \<Rightarrow> nat \<Rightarrow> py_error + int" where
  \<comment> \<open>\<^verbatim>\<open>int(float(number) * k)\<close>\<close>
  "scaled_int number k =
     (case py_float number of Inl err \<Rightarrow> Inl err | Inr x \<Rightarrow> py_int (float_mul_int x k))"

definition int_of_float_text :: "string \<Rightarrow> py_error + int" where
  \<comment> \<open>\<^verbatim>\<open>int(float(s))\<close>\<close>
  "int_of_float_text s = (case py_float s of Inl err \<Rightarrow> Inl err | Inr x \<Rightarrow> py_int x)"

definition convert_to_bytes :: "string option \<Rightarrow> py_error + int" where
  "convert_to_bytes v =
     (case v of
        None \<Rightarrow> Inr 0
      | Some s \<Rightarrow>
          if s = [] \<or> s = ''None'' then Inr 0
          else (let s' = replace (lower s) '' '' []
                in case match_size s' of
                     Some (number, u) \<Rightarrow> scaled_int number (units_get size_units u)
                   | None \<Rightarrow> int_of_float_text s'))"

definition convert_speed_to_bps :: "string option \<Rightarrow> py_error + int" where
  "convert_speed_to_bps v =
     (case v of
        None \<Rightarrow> Inr 0
      | Some s \<Rightarrow>
          if s = [] \<or> s = ''None'' then Inr 0
          else (let s' = replace (lower s) '' '' []
                in case match_speed s' of
                     Some (number, u) \<Rightarrow> scaled_int number (units_get speed_units u)
                   | None \<Rightarrow> int_of_float_text s'))"

section \<open>The report parser\<close>

text \<open>
  One dictionary of \<^verbatim>\<open>parse_bandwidth_data\<close>: the interface name, the date and period of the
  context it was met in, and the four values as the text has them (\<open>None\<close> until a value
  line fills them).
\<close>

record entry =
  interface :: string
  data_referencia :: string
  periodo :: string
  entrada :: "string option"
  saida :: "string option"
  total :: "string option"
  taxa_media :: "string option"

text \<open>The variables of the loop: the list \<^verbatim>\<open>data\<close> and the current context.\<close>

record parser_state =
  data :: "entry list"
  current_date :: "string option"
  current_period :: "string option"

definition marker_ontem :: string where
  "marker_ontem = ''- Ontem (''"

definition marker_no_mes :: string where
  \<comment> \<open>\<^verbatim>\<open>'- No m\<close>, e-circumflex, \<^verbatim>\<open>s ('\<close>\<close>
  "marker_no_mes = ''- No m'' @ [CHR 0xEA] @ ''s (''"

definition marker_interface :: string where
  "marker_interface = ''--- Interface ''"

definition label_entrada :: string where
  "label_entrada = ''Entrada:''"

definition label_saida :: string where
  "label_saida = ''Saida:''"

definition label_total :: string where
  "label_total = ''Total:''"

definition label_taxa :: string where
  \<comment> \<open>\<^verbatim>\<open>'Taxa de transfer\<close>, e-circumflex, \<^verbatim>\<open>ncia m\<close>, e-acute, \<^verbatim>\<open>dia:'\<close>\<close>
  "label_taxa = ''Taxa de transfer'' @ [CHR 0xEA] @ ''ncia m'' @ [CHR 0xE9] @ ''dia:''"

fun matches_ymd :: "string \<Rightarrow> bool" where
  \<comment> \<open>\<^verbatim>\<open>\d{4}-\d{2}-\d{2}\)\<close> at the head of the string\<close>
  "matches_ymd (y1 # y2 # y3 # y4 # h1 # m1 # m2 # h2 # d1 # d2 # cl # rest) =
     (list_all is_digit [y1, y2, y3, y4, m1, m2, d1, d2] \<and> h1 = CHR ''-'' \<and> h2 = CHR ''-''
      \<and> cl = CHR '')'')"
| "matches_ymd s = False"

fun matches_ym :: "string \<Rightarrow> bool" where
  \<comment> \<open>\<^verbatim>\<open>\d{4}-\d{2}\)\<close> at the head of the string\<close>
  "matches_ym (y1 # y2 # y3 # y4 # h1 # m1 # m2 # cl # rest) =
     (list_all is_digit [y1, y2, y3, y4, m1, m2] \<and> h1 = CHR ''-'' \<and> cl = CHR '')'')"
| "matches_ym s = False"

fun search_ymd :: "string \<Rightarrow> string option" where
  \<comment> \<open>group 1 of \<^verbatim>\<open>re.search(r'\((\d{4}-\d{2}-\d{2})\)', line)\<close>: the leftmost match\<close>
  "search_ymd [] = None"
| "search_ymd (c # cs) =
     (if c = CHR ''('' \<and> matches_ymd cs then Some (take 10 cs) else search_ymd cs)"

fun search_ym :: "string \<Rightarrow> string option" where
  \<comment> \<open>group 1 of \<^verbatim>\<open>re.search(r'\((\d{4}-\d{2})\)', line)\<close>\<close>
  "search_ym [] = None"
| "search_ym (c # cs) =
     (if c = CHR ''('' \<and> matches_ym cs then Some (take 7 cs) else search_ym cs)"

definition truthy :: "string option \<Rightarrow> bool" where
  \<comment> \<open>the truth value of a variable that holds \<^verbatim>\<open>None\<close> or a string\<close>
  "truthy v = (case v of None \<Rightarrow> False | Some s \<Rightarrow> s \<noteq> [])"

definition new_entry :: "string \<Rightarrow> string \<Rightarrow> string \<Rightarrow> entry" where
  "new_entry i d p =
     \<lparr>interface = i, data_referencia = d, periodo = p,
      entrada = None, saida = None, total = None, taxa_media = None\<rparr>"

definition set_last :: "(entry \<Rightarrow> entry) \<Rightarrow> entry list \<Rightarrow> entry list" where
  \<comment> \<open>\<^verbatim>\<open>data[-1][key] = v\<close>, on a list that is not empty\<close>
  "set_last f xs = butlast xs @ [f (last xs)]"

definition field_text :: "string \<Rightarrow> string \<Rightarrow> string" where
  \<comment> \<open>\<^verbatim>\<open>line.replace(label, '').strip()\<close>\<close>
  "field_text line label = strip (replace line label [])"

definition parse_line :: "parser_state \<Rightarrow> string \<Rightarrow> parser_state" where
  \<comment> \<open>one turn of the loop over the lines\<close>
  "parse_line st raw =
     (let line = strip raw
      in if startswith line marker_ontem then
           (case search_ymd line of
              Some d \<Rightarrow> st\<lparr>current_date := Some d, current_period := Some ''diario''\<rparr>
            | None \<Rightarrow> st)
         else if startswith line marker_no_mes then
           (case search_ym line of
              Some d \<Rightarrow> st\<lparr>current_date := Some (d @ ''-01''), current_period := Some ''mensal''\<rparr>
            | None \<Rightarrow> st)
         else if startswith line marker_interface then
           (if truthy (current_date st) \<and> truthy (current_period st) then
              st\<lparr>data := data st @
                   [new_entry (field_text line marker_interface) (the (current_date st))
                      (the (current_period st))]\<rparr>
            else st)
         else if startswith line label_entrada \<and> data st \<noteq> [] then
           st\<lparr>data := set_last (\<lambda>e. e\<lparr>entrada := Some (field_text line label_entrada)\<rparr>) (data st)\<rparr>
         else if startswith line label_saida \<and> data st \<noteq> [] then
           st\<lparr>data := set_last (\<lambda>e. e\<lparr>saida := Some (field_text line label_saida)\<rparr>) (data st)\<rparr>
         else if startswith line label_total \<and> data st \<noteq> [] then
           st\<lparr>data := set_last (\<lambda>e. e\<lparr>total := Some (field_text line label_total)\<rparr>) (data st)\<rparr>
         else if startswith line label_taxa \<and> data st \<noteq> [] then
           st\<lparr>data := set_last (\<lambda>e. e\<lparr>taxa_media := Some (field_text line label_taxa)\<rparr>) (data st)\<rparr>
         else st)"

definition initial_state :: parser_state where
  "initial_state = \<lparr>data = [], current_date = None, current_period = None\<rparr>"

definition parse_lines :: "string list \<Rightarrow> parser_state" where
  "parse_lines ls = foldl parse_line initial_state ls"

definition parse_bandwidth_data :: "string \<Rightarrow> entry list" where
  "parse_bandwidth_data text = data (parse_lines (split_on (CHR 0x0A) text))"

definition context_active :: "parser_state \<Rightarrow> bool" where
  \<comment> \<open>the test \<^verbatim>\<open>current_date and current_period\<close> of the interface branch\<close>
  "context_active st = (truthy (current_date st) \<and> truthy (current_period st))"

text \<open>
  The kinds of line the loop tells apart, for a line of the text as \<^verbatim>\<open>split\<close> gives it
  (before \<^verbatim>\<open>strip\<close>): the line of an interface section, the line of a daily or monthly
  context, and, for the lines that follow a section, the value its record ends with under
  a label, which is the one of the last line that starts with the label.
\<close>

definition section_line :: "string \<Rightarrow> bool" where
  "section_line l = startswith (strip l) marker_interface"

definition context_line :: "string \<Rightarrow> bool" where
  "context_line l = (startswith (strip l) marker_ontem \<or> startswith (strip l) marker_no_mes)"

definition last_value :: "string \<Rightarrow> string list \<Rightarrow> string option" where
  "last_value label ls =
     (let ls' = filter (\<lambda>l. startswith (strip l) label) ls
      in if ls' = [] then None else Some (field_text (strip (last ls')) label))"

section \<open>The database\<close>

text \<open>
  The two tables of \<^verbatim>\<open>init_db\<close>.  A row of \<^verbatim>\<open>interfaces\<close> is its id and its name.  A row
  of \<^verbatim>\<open>consumo_banda\<close> is its id and the seven columns the upload writes; the column
  \<^verbatim>\<open>created_at\<close> (the clock at the insertion) is left out.  \<open>consumo_seq\<close> is the
  largest id the table has given out (\<^verbatim>\<open>AUTOINCREMENT\<close>).
\<close>

record consumo_row =
  row_id :: nat
  interface_id :: nat
  col_data_referencia :: string
  col_periodo :: string
  entrada_bytes :: int
  saida_bytes :: int
  total_bytes :: int
  taxa_media_bps :: int

record database =
  interfaces :: "(string \<times> nat) list"
  consumo_banda :: "consumo_row list"
  consumo_seq :: nat

definition init_db :: database where
  \<comment> \<open>\<^verbatim>\<open>init_db()\<close> on a new database file\<close>
  "init_db =
     \<lparr>interfaces = [(''WAN'', 1), (''CAMPUS'', 2), (''DI'', 3), (''ETICE_NUVENS'', 4),
                     (''ETICE_GOV'', 5)],
      consumo_banda = [], consumo_seq = 0\<rparr>"

definition select_interface_id :: "database \<Rightarrow> string \<Rightarrow> nat option" where
  \<comment> \<open>\<^verbatim>\<open>SELECT id FROM interfaces WHERE nome = ?\<close>, \<^verbatim>\<open>fetchone()\<close>\<close>
  "select_interface_id db nome = map_of (interfaces db) nome"

definition row_key :: "consumo_row \<Rightarrow> nat \<times> string \<times> string" where
  \<comment> \<open>the columns of \<^verbatim>\<open>UNIQUE(interface_id, data_referencia, periodo)\<close>\<close>
  "row_key r = (interface_id r, col_data_referencia r, col_periodo r)"

definition sqlite_integer :: "int \<Rightarrow> bool" where
  \<comment> \<open>a Python int that sqlite3 binds: 64 bits, signed\<close>
  "sqlite_integer n = (- (2 ^ 63) \<le> n \<and> n < 2 ^ 63)"

definition insert_or_replace :: "database \<Rightarrow> consumo_row \<Rightarrow> database" where
  \<comment> \<open>\<^verbatim>\<open>INSERT OR REPLACE INTO consumo_banda\<close>: the row in conflict on the unique columns is
      deleted, the new row gets the next id\<close>
  "insert_or_replace db r =
     db\<lparr>consumo_banda :=
          filter (\<lambda>x. row_key x \<noteq> row_key r) (consumo_banda db)
          @ [r\<lparr>row_id := consumo_seq db + 1\<rparr>],
        consumo_seq := consumo_seq db + 1\<rparr>"

section \<open>The upload\<close>

datatype message =
    Nenhum_dado_fornecido
  | Nenhum_dado_valido
  | Dados_processados nat
  | Erro py_error

text \<open>
  The JSON object of the answer: \<^verbatim>\<open>success\<close>, \<^verbatim>\<open>message\<close>, and \<^verbatim>\<open>records\<close>, a key only
  the answer of a successful upload has.  \<open>Dados_processados n\<close> is the text
  \<^verbatim>\<open>Dados processados com sucesso! n registros salvos.\<close>
\<close>

record response =
  success :: bool
  message :: message
  records :: "nat option"

definition convert_values :: "entry \<Rightarrow> py_error + (int \<times> int \<times> int \<times> int)" where
  \<comment> \<open>the four conversions of an entry, in the order of the source\<close>
  "convert_values e =
     (case convert_to_bytes (entrada e) of Inl err \<Rightarrow> Inl err | Inr entrada_b \<Rightarrow>
      case convert_to_bytes (saida e) of Inl err \<Rightarrow> Inl err | Inr saida_b \<Rightarrow>
      case convert_to_bytes (total e) of Inl err \<Rightarrow> Inl err | Inr total_b \<Rightarrow>
      case convert_speed_to_bps (taxa_media e) of Inl err \<Rightarrow> Inl err | Inr taxa_bps \<Rightarrow>
        Inr (entrada_b, saida_b, total_b, taxa_bps))"

definition make_row :: "nat \<Rightarrow> entry \<Rightarrow> int \<times> int \<times> int \<times> int \<Rightarrow> consumo_row" where
  "make_row iid e v =
     (case v of (entrada_b, saida_b, total_b, taxa_bps) \<Rightarrow>
        \<lparr>row_id = 0, interface_id = iid, col_data_referencia = data_referencia e,
         col_periodo = periodo e, entrada_bytes = entrada_b, saida_bytes = saida_b,
         total_bytes = total_b, taxa_media_bps = taxa_bps\<rparr>)"

definition save_entry :: "database \<Rightarrow> entry \<Rightarrow> py_error + (database \<times> nat)" where
  \<comment> \<open>the body of the loop over \<^verbatim>\<open>parsed_data\<close>: the new database and what it adds to
      \<^verbatim>\<open>records_saved\<close>\<close>
  "save_entry db e =
     (case select_interface_id db (interface e) of
        None \<Rightarrow> Inr (db, 0)
      | Some iid \<Rightarrow>
          (case convert_values e of
             Inl err \<Rightarrow> Inl err
           | Inr (entrada_b, saida_b, total_b, taxa_bps) \<Rightarrow>
               if list_all sqlite_integer [entrada_b, saida_b, total_b, taxa_bps]
               then Inr (insert_or_replace db (make_row iid e (entrada_b, saida_b, total_b, taxa_bps)), 1)
               else Inl OverflowError))"

fun save_entries :: "database \<Rightarrow> entry list \<Rightarrow> nat \<Rightarrow> py_error + (database \<times> nat)" where
  \<comment> \<open>the loop: the third argument is \<^verbatim>\<open>records_saved\<close>\<close>
  "save_entries db [] n = Inr (db, n)"
| "save_entries db (e # es) n =
     (case save_entry db e of
        Inl err \<Rightarrow> Inl err
      | Inr (db', k) \<Rightarrow> save_entries db' es (n + k))"

definition failure :: "message \<Rightarrow> response" where
  "failure m = \<lparr>success = False, message = m, records = None\<rparr>"

definition upload_data :: "database \<Rightarrow> string \<Rightarrow> response \<times> database" where
  \<comment> \<open>the answer and the database after the call; an exception leaves the transaction
      uncommitted, so the database is the one before\<close>
  "upload_data db text_data =
     (if text_data = [] then (failure Nenhum_dado_fornecido, db)
      else (let parsed_data = parse_bandwidth_data text_data
            in if parsed_data = [] then (failure Nenhum_dado_valido, db)
               else (case save_entries db parsed_data 0 of
                       Inl err \<Rightarrow> (failure (Erro err), db)
                     | Inr (db', records_saved) \<Rightarrow>
                         (\<lparr>success = True, message = Dados_processados records_saved,
                           records = Some records_saved\<rparr>, db'))))"

section \<open>What an upload writes\<close>

text \<open>
  The loop of \<open>upload_data\<close> read as two passes: the rows the entries give (none for an
  entry of an unknown interface, an error for the first entry that does not convert), and
  their insertion.  \<open>save_entries_entry_rows\<close> below proves that the loop does exactly that.
  \<open>stored_records\<close> is the table without the ids of its rows.
\<close>

definition entry_row :: "database \<Rightarrow> entry \<Rightarrow> py_error + consumo_row option" where
  "entry_row db e =
     (case select_interface_id db (interface e) of
        None \<Rightarrow> Inr None
      | Some iid \<Rightarrow>
          (case convert_values e of
             Inl err \<Rightarrow> Inl err
           | Inr (entrada_b, saida_b, total_b, taxa_bps) \<Rightarrow>
               if list_all sqlite_integer [entrada_b, saida_b, total_b, taxa_bps]
               then Inr (Some (make_row iid e (entrada_b, saida_b, total_b, taxa_bps)))
               else Inl OverflowError))"

fun entry_rows :: "database \<Rightarrow> entry list \<Rightarrow> py_error + consumo_row list" where
  "entry_rows db [] = Inr []"
| "entry_rows db (e # es) =
     (case entry_row db e of
        Inl err \<Rightarrow> Inl err
      | Inr ro \<Rightarrow>
          (case entry_rows db es of
             Inl err \<Rightarrow> Inl err
           | Inr rs \<Rightarrow> Inr (case ro of None \<Rightarrow> rs | Some r \<Rightarrow> r # rs)))"

definition stored_records :: "database \<Rightarrow> consumo_row list" where
  "stored_records db = map (\<lambda>r. r\<lparr>row_id := 0\<rparr>) (consumo_banda db)"

definition upsert :: "consumo_row \<Rightarrow> consumo_row list \<Rightarrow> consumo_row list" where
  "upsert r xs = filter (\<lambda>x. row_key x \<noteq> row_key r) xs @ [r\<lparr>row_id := 0\<rparr>]"

section \<open>Reading a float and a field\<close>

text \<open>
  What the statements about the converters speak of: the real number a float stands for
  (0 for an infinity and a NaN, which \<open>py_int\<close> refuses), truncation toward zero, the sign
  of a float, and a field whose text has no minus sign.
\<close>

definition float_val :: "pyfloat \<Rightarrow> real" where
  "float_val x =
     (case x of
        Finite neg m e \<Rightarrow> (if neg then - 1 else 1) * real m * 2 powi e
      | Infinity neg \<Rightarrow> 0
      | NaN \<Rightarrow> 0)"

definition toward_zero :: "real \<Rightarrow> int" where
  "toward_zero r = (if 0 \<le> r then \<lfloor>r\<rfloor> else \<lceil>r\<rceil>)"

definition canonical :: "nat \<Rightarrow> int \<Rightarrow> bool" where
  \<comment> \<open>the significand and exponent of a binary64 number: zero, a subnormal or a normal
      number\<close>
  "canonical m e =
     ((m = 0 \<and> e = 0) \<or> (0 < m \<and> m < 2 ^ 52 \<and> e = - 1074)
      \<or> (2 ^ 52 \<le> m \<and> m < 2 ^ 53 \<and> - 1074 \<le> e \<and> e \<le> 971))"

definition size_float :: "string \<Rightarrow> py_error + pyfloat" where
  \<comment> \<open>the float that \<open>convert_to_bytes\<close> hands to \<^verbatim>\<open>int\<close>, or the error of \<^verbatim>\<open>float\<close>\<close>
  "size_float s =
     (let s' = replace (lower s) '' '' []
      in case match_size s' of
           Some (number, u) \<Rightarrow>
             (case py_float number of
                Inl err \<Rightarrow> Inl err
              | Inr x \<Rightarrow> Inr (float_mul_int x (units_get size_units u)))
         | None \<Rightarrow> py_float s')"

definition speed_float :: "string \<Rightarrow> py_error + pyfloat" where
  \<comment> \<open>the same for \<open>convert_speed_to_bps\<close>\<close>
  "speed_float s =
     (let s' = replace (lower s) '' '' []
      in case match_speed s' of
           Some (number, u) \<Rightarrow>
             (case py_float number of
                Inl err \<Rightarrow> Inl err
              | Inr x \<Rightarrow> Inr (float_mul_int x (units_get speed_units u)))
         | None \<Rightarrow> py_float s')"

definition int_or_error :: "py_error + pyfloat \<Rightarrow> py_error + int" where
  "int_or_error r = (case r of Inl err \<Rightarrow> Inl err | Inr x \<Rightarrow> py_int x)"

definition is_negative :: "pyfloat \<Rightarrow> bool" where
  "is_negative x = (case x of Finite neg m e \<Rightarrow> neg | Infinity neg \<Rightarrow> neg | NaN \<Rightarrow> False)"

definition no_minus :: "string option \<Rightarrow> bool" where
  "no_minus v = (case v of None \<Rightarrow> True | Some s \<Rightarrow> CHR ''-'' \<notin> set s)"

section \<open>Evaluation\<close>

text \<open>Rules that compute the model on a concrete input.\<close>

lemma bitlen_numeral: "bitlen (numeral n) = bitlen (numeral n div 2) + 1"
  by (subst compute_bitlen) simp

lemma bitlen_one: "bitlen 1 = 1"
  by (subst compute_bitlen) simp

lemma lower_char_table:
  "lower_char c =
     (case map_of
        [(CHR ''A'', CHR ''a''), (CHR ''B'', CHR ''b''), (CHR ''C'', CHR ''c''),
         (CHR ''D'', CHR ''d''), (CHR ''E'', CHR ''e''), (CHR ''F'', CHR ''f''),
         (CHR ''G'', CHR ''g''), (CHR ''H'', CHR ''h''), (CHR ''I'', CHR ''i''),
         (CHR ''J'', CHR ''j''), (CHR ''K'', CHR ''k''), (CHR ''L'', CHR ''l''),
         (CHR ''M'', CHR ''m''), (CHR ''N'', CHR ''n''), (CHR ''O'', CHR ''o''),
         (CHR ''P'', CHR ''p''), (CHR ''Q'', CHR ''q''), (CHR ''R'', CHR ''r''),
         (CHR ''S'', CHR ''s''), (CHR ''T'', CHR ''t''), (CHR ''U'', CHR ''u''),
         (CHR ''V'', CHR ''v''), (CHR ''W'', CHR ''w''), (CHR ''X'', CHR ''x''),
         (CHR ''Y'', CHR ''y''), (CHR ''Z'', CHR ''z''),
         (CHR 0xC0, CHR 0xE0), (CHR 0xC1, CHR 0xE1), (CHR 0xC2, CHR 0xE2),
         (CHR 0xC3, CHR 0xE3), (CHR 0xC4, CHR 0xE4), (CHR 0xC5, CHR 0xE5),
         (CHR 0xC6, CHR 0xE6), (CHR 0xC7, CHR 0xE7), (CHR 0xC8, CHR 0xE8),
         (CHR 0xC9, CHR 0xE9), (CHR 0xCA, CHR 0xEA), (CHR 0xCB, CHR 0xEB),
         (CHR 0xCC, CHR 0xEC), (CHR 0xCD, CHR 0xED), (CHR 0xCE, CHR 0xEE),
         (CHR 0xCF, CHR 0xEF), (CHR 0xD0, CHR 0xF0), (CHR 0xD1, CHR 0xF1),
         (CHR 0xD2, CHR 0xF2), (CHR 0xD3, CHR 0xF3), (CHR 0xD4, CHR 0xF4),
         (CHR 0xD5, CHR 0xF5), (CHR 0xD6, CHR 0xF6), (CHR 0xD8, CHR 0xF8),
         (CHR 0xD9, CHR 0xF9), (CHR 0xDA, CHR 0xFA), (CHR 0xDB, CHR 0xFB),
         (CHR 0xDC, CHR 0xFC), (CHR 0xDD, CHR 0xFD), (CHR 0xDE, CHR 0xFE)] c of
        Some l \<Rightarrow> l | None \<Rightarrow> c)"
  by (simp add: lower_char_def upper_chars_def lower_chars_def)

lemma lower_char_ascii_upper:
  "lower_char (CHR ''A'') = CHR ''a''"
  "lower_char (CHR ''B'') = CHR ''b''"
  "lower_char (CHR ''C'') = CHR ''c''"
  "lower_char (CHR ''D'') = CHR ''d''"
  "lower_char (CHR ''E'') = CHR ''e''"
  "lower_char (CHR ''F'') = CHR ''f''"
  "lower_char (CHR ''G'') = CHR ''g''"
  "lower_char (CHR ''H'') = CHR ''h''"
  "lower_char (CHR ''I'') = CHR ''i''"
  "lower_char (CHR ''J'') = CHR ''j''"
  "lower_char (CHR ''K'') = CHR ''k''"
  "lower_char (CHR ''L'') = CHR ''l''"
  "lower_char (CHR ''M'') = CHR ''m''"
  "lower_char (CHR ''N'') = CHR ''n''"
  "lower_char (CHR ''O'') = CHR ''o''"
  "lower_char (CHR ''P'') = CHR ''p''"
  "lower_char (CHR ''Q'') = CHR ''q''"
  "lower_char (CHR ''R'') = CHR ''r''"
  "lower_char (CHR ''S'') = CHR ''s''"
  "lower_char (CHR ''T'') = CHR ''t''"
  "lower_char (CHR ''U'') = CHR ''u''"
  "lower_char (CHR ''V'') = CHR ''v''"
  "lower_char (CHR ''W'') = CHR ''w''"
  "lower_char (CHR ''X'') = CHR ''x''"
  "lower_char (CHR ''Y'') = CHR ''y''"
  "lower_char (CHR ''Z'') = CHR ''z''"
  by (simp_all add: lower_char_table)

lemma lower_char_other: "c \<notin> set upper_chars \<Longrightarrow> lower_char c = c"
  by (simp add: lower_char_def map_of_eq_None_iff upper_chars_def lower_chars_def)

lemmas weak_congs =
  option.case_cong_weak sum.case_cong_weak list.case_cong_weak prod.case_cong_weak
  pyfloat.case_cong_weak

lemmas string_eval =
  lower_def lower_char_ascii_upper lower_char_other upper_chars_def is_space_def strip_def is_digit_def is_az_def is_number_char_def
  float_space_def

lemmas float_eval =
  to_double_def scaled_round_def ilog2_def ge_pow2_def round_half_even_def float_mul_int_def py_int_def
  bitlen_numeral bitlen_one Let_def

lemmas py_float_eval =
  py_float_def parse_sign_def parse_decimal_def parse_exponent_def digits_val_def

lemmas convert_eval =
  convert_to_bytes_def convert_speed_to_bps_def match_size_def match_speed_def scaled_int_def
  int_of_float_text_def units_get_def size_units_def speed_units_def

lemmas parser_eval =
  parse_bandwidth_data_def parse_lines_def parse_line_def initial_state_def marker_ontem_def
  marker_no_mes_def marker_interface_def label_entrada_def label_saida_def label_total_def
  label_taxa_def truthy_def new_entry_def set_last_def field_text_def

lemmas upload_eval =
  upload_data_def save_entry_def select_interface_id_def convert_values_def make_row_def
  insert_or_replace_def row_key_def sqlite_integer_def failure_def init_db_def

section \<open>The values of the scenarios\<close>

lemma convert_1_00GiB: "convert_to_bytes (Some ''1.00GiB'') = Inr 1073741824"
  by (simp add: convert_eval py_float_eval float_eval string_eval cong: weak_congs)

lemma convert_500_00MiB: "convert_to_bytes (Some ''500.00MiB'') = Inr 524288000"
  by (simp add: convert_eval py_float_eval float_eval string_eval cong: weak_congs)

lemma convert_1_50GiB: "convert_to_bytes (Some ''1.50GiB'') = Inr 1610612736"
  by (simp add: convert_eval py_float_eval float_eval string_eval cong: weak_congs)

lemma convert_10_00Mbit: "convert_speed_to_bps (Some ''10.00Mbit/s'') = Inr 10000000"
  by (simp add: convert_eval py_float_eval float_eval string_eval cong: weak_congs)

lemma convert_absent: "convert_to_bytes None = Inr 0" "convert_speed_to_bps None = Inr 0"
  by (simp_all add: convert_to_bytes_def convert_speed_to_bps_def)

section \<open>The lines of a report\<close>

text \<open>
  What one turn of the loop does with each kind of line.  The markers and labels differ
  within their first three characters, so a stripped line starts with at most one of them
  and the order of the \<^verbatim>\<open>elif\<close> chain decides nothing between them.
\<close>

lemma startswith_append: "startswith s p \<Longrightarrow> \<exists>r. s = p @ r"
  by (induction s p rule: startswith.induct) auto

lemma startswith_3: "startswith x (p # q # r # ps) \<Longrightarrow> \<exists>t. x = p # q # r # t \<and> startswith t ps"
  by (cases x; cases "tl x"; cases "tl (tl x)") auto

lemmas marker_defs =
  marker_ontem_def marker_no_mes_def marker_interface_def label_entrada_def label_saida_def
  label_total_def label_taxa_def

lemma data_parse_line_single:
  assumes d: "data st = [e]" and ns: "\<not> section_line l"
  shows "data (parse_line st l) =
     [e\<lparr>entrada := (if startswith (strip l) label_entrada
                     then Some (field_text (strip l) label_entrada) else entrada e),
        saida := (if startswith (strip l) label_saida
                   then Some (field_text (strip l) label_saida) else saida e),
        total := (if startswith (strip l) label_total
                   then Some (field_text (strip l) label_total) else total e),
        taxa_media := (if startswith (strip l) label_taxa
                        then Some (field_text (strip l) label_taxa) else taxa_media e)\<rparr>]"
proof -
  define x where "x = strip l"
  have ns': "\<not> startswith x marker_interface"
    using ns by (simp add: section_line_def x_def)
  consider (ontem) "startswith x marker_ontem" | (mes) "startswith x marker_no_mes"
    | (entrada) "startswith x label_entrada" | (saida) "startswith x label_saida"
    | (total) "startswith x label_total" | (taxa) "startswith x label_taxa"
    | (other) "\<not> startswith x marker_ontem" "\<not> startswith x marker_no_mes"
        "\<not> startswith x label_entrada" "\<not> startswith x label_saida"
        "\<not> startswith x label_total" "\<not> startswith x label_taxa"
    by blast
  then show ?thesis
  proof cases
    case ontem
    then obtain t where t: "x = CHR ''-'' # CHR '' '' # CHR ''O'' # t"
      unfolding marker_ontem_def by (auto dest: startswith_3)
    have no: "\<not> startswith x label_entrada" "\<not> startswith x label_saida"
      "\<not> startswith x label_total" "\<not> startswith x label_taxa"
      by (simp_all add: t marker_defs)
    show ?thesis
      using ontem no d
      by (simp add: parse_line_def Let_def x_def [symmetric] split: option.split)
  next
    case mes
    then obtain t where t: "x = CHR ''-'' # CHR '' '' # CHR ''N'' # t"
      unfolding marker_no_mes_def by (auto dest: startswith_3)
    have no: "\<not> startswith x label_entrada" "\<not> startswith x label_saida"
      "\<not> startswith x label_total" "\<not> startswith x label_taxa" "\<not> startswith x marker_ontem"
      by (simp_all add: t marker_defs)
    show ?thesis
      using mes no d
      by (simp add: parse_line_def Let_def x_def [symmetric] split: option.split)
  next
    case entrada
    then obtain t where t: "x = CHR ''E'' # CHR ''n'' # CHR ''t'' # t"
      unfolding label_entrada_def by (auto dest: startswith_3)
    have no: "\<not> startswith x marker_ontem" "\<not> startswith x marker_no_mes"
      "\<not> startswith x label_saida" "\<not> startswith x label_total" "\<not> startswith x label_taxa"
      by (simp_all add: t marker_defs)
    show ?thesis
      using entrada no ns' d
      by (simp add: parse_line_def Let_def x_def [symmetric] set_last_def)
  next
    case saida
    then obtain t where t: "x = CHR ''S'' # CHR ''a'' # CHR ''i'' # t"
      unfolding label_saida_def by (auto dest: startswith_3)
    have no: "\<not> startswith x marker_ontem" "\<not> startswith x marker_no_mes"
      "\<not> startswith x label_entrada" "\<not> startswith x label_total" "\<not> startswith x label_taxa"
      by (simp_all add: t marker_defs)
    show ?thesis
      using saida no ns' d
      by (simp add: parse_line_def Let_def x_def [symmetric] set_last_def)
  next
    case total
    then obtain t where t: "x = CHR ''T'' # CHR ''o'' # CHR ''t'' # t"
      unfolding label_total_def by (auto dest: startswith_3)
    have no: "\<not> startswith x marker_ontem" "\<not> startswith x marker_no_mes"
      "\<not> startswith x label_entrada" "\<not> startswith x label_saida" "\<not> startswith x label_taxa"
      by (simp_all add: t marker_defs)
    show ?thesis
      using total no ns' d
      by (simp add: parse_line_def Let_def x_def [symmetric] set_last_def)
  next
    case taxa
    then obtain t where t: "x = CHR ''T'' # CHR ''a'' # CHR ''x'' # t"
      unfolding label_taxa_def by (auto dest: startswith_3)
    have no: "\<not> startswith x marker_ontem" "\<not> startswith x marker_no_mes"
      "\<not> startswith x label_entrada" "\<not> startswith x label_saida" "\<not> startswith x label_total"
      by (simp_all add: t marker_defs)
    show ?thesis
      using taxa no ns' d
      by (simp add: parse_line_def Let_def x_def [symmetric] set_last_def)
  next
    case other
    then show ?thesis
      using ns' d by (simp add: parse_line_def Let_def x_def [symmetric])
  qed
qed

lemma last_value_Nil: "last_value label [] = None"
  by (simp add: last_value_def)

lemma last_value_snoc:
  "last_value label (ls @ [l]) =
     (if startswith (strip l) label then Some (field_text (strip l) label)
      else last_value label ls)"
  by (simp add: last_value_def)

lemma section_values:
  assumes d: "data st = [new_entry i dt p]" and ns: "\<forall>l \<in> set vals. \<not> section_line l"
  shows "data (foldl parse_line st vals) =
     [\<lparr>interface = i, data_referencia = dt, periodo = p,
       entrada = last_value label_entrada vals, saida = last_value label_saida vals,
       total = last_value label_total vals, taxa_media = last_value label_taxa vals\<rparr>]"
  using ns
proof (induction vals rule: rev_induct)
  case Nil
  then show ?case by (simp add: d new_entry_def last_value_Nil)
next
  case (snoc l ls)
  then have ih: "data (foldl parse_line st ls) =
     [\<lparr>interface = i, data_referencia = dt, periodo = p,
       entrada = last_value label_entrada ls, saida = last_value label_saida ls,
       total = last_value label_total ls, taxa_media = last_value label_taxa ls\<rparr>]"
    and l: "\<not> section_line l"
    by simp_all
  show ?case
    by (simp add: data_parse_line_single [OF ih l] last_value_snoc)
qed

lemma data_parse_line_no_section:
  assumes "data st = []" and "\<not> section_line l"
  shows "data (parse_line st l) = []"
  using assms by (simp add: parse_line_def Let_def section_line_def split: option.split)

lemma data_foldl_no_section:
  assumes "data st = []" and "\<forall>l \<in> set ls. \<not> section_line l"
  shows "data (foldl parse_line st ls) = []"
  using assms by (induction ls arbitrary: st) (simp_all add: data_parse_line_no_section)

lemma parse_line_daily_marker:
  assumes "startswith (strip m) (marker_ontem @ ''2024-03-15)'')"
  shows "parse_line st m = st\<lparr>current_date := Some ''2024-03-15'', current_period := Some ''diario''\<rparr>"
proof -
  from assms obtain r where r: "strip m = (marker_ontem @ ''2024-03-15)'') @ r"
    by (auto dest: startswith_append)
  have s: "startswith (strip m) marker_ontem"
    by (simp add: r marker_ontem_def)
  have "search_ymd (strip m) = Some ''2024-03-15''"
    by (simp add: r marker_ontem_def is_digit_def)
  then show ?thesis
    using s by (simp add: parse_line_def Let_def)
qed

lemma parse_line_other:
  assumes "data st = []" and "\<not> section_line l" and "\<not> context_line l"
  shows "parse_line st l = st"
  using assms by (simp add: parse_line_def Let_def section_line_def context_line_def)

lemma foldl_parse_line_other:
  assumes "data st = []" and "\<forall>l \<in> set ls. \<not> section_line l \<and> \<not> context_line l"
  shows "foldl parse_line st ls = st"
  using assms by (induction ls) (simp_all add: parse_line_other)

lemma parse_line_section:
  assumes "section_line s"
  shows "parse_line st s =
     (if context_active st
      then st\<lparr>data := data st @ [new_entry (field_text (strip s) marker_interface)
                (the (current_date st)) (the (current_period st))]\<rparr>
      else st)"
proof -
  from assms obtain t where t: "strip s = CHR ''-'' # CHR ''-'' # CHR ''-'' # t"
    unfolding section_line_def marker_interface_def by (auto dest: startswith_3)
  have no: "\<not> startswith (strip s) marker_ontem" "\<not> startswith (strip s) marker_no_mes"
    by (simp_all add: t marker_defs)
  show ?thesis
    using assms no by (simp add: parse_line_def Let_def section_line_def context_active_def)
qed

lemma parse_one_section:
  assumes pre: "\<forall>l \<in> set pre. \<not> section_line l"
    and marker: "startswith (strip m) (marker_ontem @ ''2024-03-15)'')"
    and mid: "\<forall>l \<in> set mid. \<not> section_line l \<and> \<not> context_line l"
    and sec: "section_line s"
    and vals: "\<forall>l \<in> set vals. \<not> section_line l"
  shows "data (parse_lines (pre @ [m] @ mid @ [s] @ vals)) =
     [\<lparr>interface = field_text (strip s) marker_interface, data_referencia = ''2024-03-15'',
       periodo = ''diario'',
       entrada = last_value label_entrada vals, saida = last_value label_saida vals,
       total = last_value label_total vals, taxa_media = last_value label_taxa vals\<rparr>]"
proof -
  define st1 where "st1 = foldl parse_line initial_state pre"
  define st2 where "st2 = st1\<lparr>current_date := Some ''2024-03-15'', current_period := Some ''diario''\<rparr>"
  define st3 where "st3 = st2\<lparr>data := [new_entry (field_text (strip s) marker_interface)
      ''2024-03-15'' ''diario'']\<rparr>"
  have d1: "data st1 = []"
    unfolding st1_def by (rule data_foldl_no_section) (simp_all add: initial_state_def pre)
  have d2: "data st2 = []"
    by (simp add: st2_def d1)
  have a2: "context_active st2"
    by (simp add: st2_def context_active_def truthy_def)
  have m: "parse_line st1 m = st2"
    unfolding st2_def by (rule parse_line_daily_marker [OF marker])
  have md: "foldl parse_line st2 mid = st2"
    by (rule foldl_parse_line_other [OF d2 mid])
  have s: "parse_line st2 s = st3"
    by (simp add: parse_line_section [OF sec] a2 d2 st3_def) (simp add: st2_def)
  have d3: "data st3 = [new_entry (field_text (strip s) marker_interface) ''2024-03-15'' ''diario'']"
    by (simp add: st3_def)
  have "parse_lines (pre @ [m] @ mid @ [s] @ vals) = foldl parse_line st3 vals"
    by (simp add: parse_lines_def st1_def [symmetric] m md s)
  then show ?thesis
    by (simp add: section_values [OF d3 vals])
qed

section \<open>The daily scenario\<close>

lemma split_report:
  "split_on (CHR 0x0A)
     (''vnstat'' @ [CHR 0x0A] @ ''  - Ontem (2024-03-15):'' @ [CHR 0x0D, CHR 0x0A] @
      [CHR 0x0D, CHR 0x0A] @ ''--- Interface WAN'' @ [CHR 0x0D, CHR 0x0A] @
      ''Total: 1.50GiB'' @ [CHR 0x0A] @ ''Entrada: 2.00GiB'' @ [CHR 0x0A] @
      label_taxa @ '' 10.00Mbit/s'' @ [CHR 0x0A] @ ''  Saida:  500.00MiB '' @ [CHR 0x0A] @
      ''Entrada: 1.00GiB'' @ [CHR 0x0A]) =
   [''vnstat''] @ [''  - Ontem (2024-03-15):'' @ [CHR 0x0D]] @ [[CHR 0x0D]] @
   [''--- Interface WAN'' @ [CHR 0x0D]] @
   [''Total: 1.50GiB'', ''Entrada: 2.00GiB'', label_taxa @ '' 10.00Mbit/s'',
    ''  Saida:  500.00MiB '', ''Entrada: 1.00GiB'', []]"
  by (simp add: label_taxa_def)

lemma parse_daily_report_and_section:
  "parse_bandwidth_data
     (''- Ontem (2024-03-15)'' @ [CHR 0x0A] @ ''--- Interface WAN'' @ [CHR 0x0A] @
      ''Entrada: 1.00GiB'' @ [CHR 0x0A] @ ''Saida: 500.00MiB'' @ [CHR 0x0A] @
      ''Total: 1.50GiB'' @ [CHR 0x0A] @ label_taxa @ '' 10.00Mbit/s'' @ [CHR 0x0A] @
      ''--- Interface CAMPUS'') =
   [\<lparr>interface = ''WAN'', data_referencia = ''2024-03-15'', periodo = ''diario'',
      entrada = Some ''1.00GiB'', saida = Some ''500.00MiB'', total = Some ''1.50GiB'',
      taxa_media = Some ''10.00Mbit/s''\<rparr>,
    \<lparr>interface = ''CAMPUS'', data_referencia = ''2024-03-15'', periodo = ''diario'',
      entrada = None, saida = None, total = None, taxa_media = None\<rparr>]"
  by (simp add: parser_eval string_eval cong: weak_congs)

text \<open>
  C1, as the code has it.  The lines of the text are: lines that open no interface section;
  a line that, stripped, starts with the daily marker of 2024-03-15; lines that neither
  open a section nor set a context; the section line of \<open>i\<close>, an interface the table
  \<^verbatim>\<open>interfaces\<close> knows under the id \<open>iid\<close>; and lines that open no further section, among
  which the last line of each label gives 1.00GiB, 500.00MiB, 1.50GiB and 10.00Mbit/s.
  White space around a line (the carriage return of a CRLF line end too), blank lines,
  other lines and the order of the value lines are free.  Whatever rows the table held
  before, the upload answers with success and one saved record, and what it writes is one
  row: the interface, 2024-03-15, \<open>diario\<close>, 1073741824, 524288000, 1610612736 and
  10000000 (replacing the row of the same interface, date and period, if there was one).
\<close>

theorem C1_daily_scenario:
  assumes lines: "split_on (CHR 0x0A) t = pre @ [m] @ mid @ [s] @ vals"
    and pre: "\<forall>l \<in> set pre. \<not> section_line l"
    and marker: "startswith (strip m) (marker_ontem @ ''2024-03-15)'')"
    and mid: "\<forall>l \<in> set mid. \<not> section_line l \<and> \<not> context_line l"
    and sec: "section_line s" "field_text (strip s) marker_interface = i"
    and known: "select_interface_id db i = Some iid"
    and vals: "\<forall>l \<in> set vals. \<not> section_line l"
    and vals_entrada: "last_value label_entrada vals = Some ''1.00GiB''"
    and vals_saida: "last_value label_saida vals = Some ''500.00MiB''"
    and vals_total: "last_value label_total vals = Some ''1.50GiB''"
    and vals_taxa: "last_value label_taxa vals = Some ''10.00Mbit/s''"
  shows "upload_data db t =
         (\<lparr>success = True, message = Dados_processados 1, records = Some 1\<rparr>,
          db\<lparr>consumo_banda :=
               filter (\<lambda>r. row_key r \<noteq> (iid, ''2024-03-15'', ''diario'')) (consumo_banda db) @
               [\<lparr>row_id = consumo_seq db + 1, interface_id = iid,
                 col_data_referencia = ''2024-03-15'', col_periodo = ''diario'',
                 entrada_bytes = 1073741824, saida_bytes = 524288000,
                 total_bytes = 1610612736, taxa_media_bps = 10000000\<rparr>],
             consumo_seq := consumo_seq db + 1\<rparr>)"
proof -
  have parsed: "parse_bandwidth_data t =
      [\<lparr>interface = i, data_referencia = ''2024-03-15'', periodo = ''diario'',
        entrada = Some ''1.00GiB'', saida = Some ''500.00MiB'', total = Some ''1.50GiB'',
        taxa_media = Some ''10.00Mbit/s''\<rparr>]"
    unfolding parse_bandwidth_data_def lines
    by (simp only: parse_one_section [OF pre marker mid sec(1) vals] sec(2) vals_entrada
        vals_saida vals_total vals_taxa)
  have "length (split_on (CHR 0x0A) t) \<noteq> 1"
    unfolding lines by simp
  then have ne: "t \<noteq> []"
    by auto
  show ?thesis
    unfolding upload_data_def parsed
    by (simp add: ne save_entry_def known convert_values_def convert_1_00GiB convert_500_00MiB
        convert_1_50GiB convert_10_00Mbit sqlite_integer_def insert_or_replace_def make_row_def
        row_key_def)
qed

theorem C1_daily_scenario_witness:
  "upload_data init_db
     (''vnstat'' @ [CHR 0x0A] @ ''  - Ontem (2024-03-15):'' @ [CHR 0x0D, CHR 0x0A] @
      [CHR 0x0D, CHR 0x0A] @ ''--- Interface WAN'' @ [CHR 0x0D, CHR 0x0A] @
      ''Total: 1.50GiB'' @ [CHR 0x0A] @ ''Entrada: 2.00GiB'' @ [CHR 0x0A] @
      label_taxa @ '' 10.00Mbit/s'' @ [CHR 0x0A] @ ''  Saida:  500.00MiB '' @ [CHR 0x0A] @
      ''Entrada: 1.00GiB'' @ [CHR 0x0A]) =
   (\<lparr>success = True, message = Dados_processados 1, records = Some 1\<rparr>,
    init_db\<lparr>consumo_banda :=
         [\<lparr>row_id = 1, interface_id = 1,
           col_data_referencia = ''2024-03-15'', col_periodo = ''diario'',
           entrada_bytes = 1073741824, saida_bytes = 524288000,
           total_bytes = 1610612736, taxa_media_bps = 10000000\<rparr>],
       consumo_seq := 1\<rparr>)"
proof -
  let ?vals = "[''Total: 1.50GiB'', ''Entrada: 2.00GiB'', label_taxa @ '' 10.00Mbit/s'',
    ''  Saida:  500.00MiB '', ''Entrada: 1.00GiB'', []]"
  have pre: "\<forall>l \<in> set [''vnstat'']. \<not> section_line l"
    by (simp add: section_line_def marker_interface_def string_eval)
  have marker: "startswith (strip (''  - Ontem (2024-03-15):'' @ [CHR 0x0D]))
      (marker_ontem @ ''2024-03-15)'')"
    by (simp add: marker_ontem_def string_eval)
  have mid: "\<forall>l \<in> set [[CHR 0x0D]]. \<not> section_line l \<and> \<not> context_line l"
    by (simp add: section_line_def context_line_def marker_defs string_eval)
  have sec: "section_line (''--- Interface WAN'' @ [CHR 0x0D])"
    "field_text (strip (''--- Interface WAN'' @ [CHR 0x0D])) marker_interface = ''WAN''"
    by (simp_all add: section_line_def field_text_def marker_interface_def string_eval)
  have known: "select_interface_id init_db ''WAN'' = Some 1"
    by (simp add: select_interface_id_def init_db_def)
  have vals: "\<forall>l \<in> set ?vals. \<not> section_line l"
    by (simp add: section_line_def marker_defs string_eval)
  have v1: "last_value label_entrada ?vals = Some ''1.00GiB''"
    by (simp add: last_value_def field_text_def marker_defs string_eval)
  have v2: "last_value label_saida ?vals = Some ''500.00MiB''"
    by (simp add: last_value_def field_text_def marker_defs string_eval)
  have v3: "last_value label_total ?vals = Some ''1.50GiB''"
    by (simp add: last_value_def field_text_def marker_defs string_eval)
  have v4: "last_value label_taxa ?vals = Some ''10.00Mbit/s''"
    by (simp add: last_value_def field_text_def marker_defs string_eval)
  show ?thesis
    using C1_daily_scenario [OF split_report pre marker mid sec known vals v1 v2 v3 v4]
    by (simp add: init_db_def)
qed

text \<open>
  C1, as the claim states it, fails: a text that contains the scenario and, after it, the
  section line of another known interface gives two accepted records, not one.
\<close>

theorem C1_further_section:
  "upload_data init_db
     (''- Ontem (2024-03-15)'' @ [CHR 0x0A] @ ''--- Interface WAN'' @ [CHR 0x0A] @
      ''Entrada: 1.00GiB'' @ [CHR 0x0A] @ ''Saida: 500.00MiB'' @ [CHR 0x0A] @
      ''Total: 1.50GiB'' @ [CHR 0x0A] @ label_taxa @ '' 10.00Mbit/s'' @ [CHR 0x0A] @
      ''--- Interface CAMPUS'') =
   (\<lparr>success = True, message = Dados_processados 2, records = Some 2\<rparr>,
    init_db\<lparr>consumo_banda :=
         [\<lparr>row_id = 1, interface_id = 1,
           col_data_referencia = ''2024-03-15'', col_periodo = ''diario'',
           entrada_bytes = 1073741824, saida_bytes = 524288000,
           total_bytes = 1610612736, taxa_media_bps = 10000000\<rparr>,
          \<lparr>row_id = 2, interface_id = 2,
           col_data_referencia = ''2024-03-15'', col_periodo = ''diario'',
           entrada_bytes = 0, saida_bytes = 0, total_bytes = 0, taxa_media_bps = 0\<rparr>],
       consumo_seq := 2\<rparr>)"
  unfolding upload_data_def parse_daily_report_and_section
  by (simp add: save_entry_def select_interface_id_def convert_values_def convert_absent
      convert_1_00GiB convert_500_00MiB convert_1_50GiB convert_10_00Mbit sqlite_integer_def
      insert_or_replace_def make_row_def row_key_def init_db_def)

section \<open>The loop as rows and insertions\<close>

lemma save_entry_entry_row:
  "save_entry db e =
     (case entry_row db e of
        Inl err \<Rightarrow> Inl err
      | Inr None \<Rightarrow> Inr (db, 0)
      | Inr (Some r) \<Rightarrow> Inr (insert_or_replace db r, 1))"
  by (simp add: save_entry_def entry_row_def split: option.split sum.split prod.split)

lemma interfaces_insert_or_replace [simp]:
  "interfaces (insert_or_replace db r) = interfaces db"
  by (simp add: insert_or_replace_def)

lemma entry_row_cong: "interfaces db' = interfaces db \<Longrightarrow> entry_row db' e = entry_row db e"
  by (simp add: entry_row_def select_interface_id_def)

lemma entry_rows_cong:
  assumes "interfaces db' = interfaces db"
  shows "entry_rows db' es = entry_rows db es"
  by (induction es) (simp_all add: entry_row_cong [OF assms] split: sum.split)

lemma save_entries_entry_rows:
  "save_entries db es n =
     (case entry_rows db es of
        Inl err \<Rightarrow> Inl err
      | Inr rs \<Rightarrow> Inr (foldl insert_or_replace db rs, n + length rs))"
proof (induction es arbitrary: db n)
  case Nil
  then show ?case by simp
next
  case (Cons e es)
  show ?case
  proof (cases "entry_row db e")
    case (Inl err)
    then show ?thesis by (simp add: save_entry_entry_row)
  next
    case (Inr ro)
    show ?thesis
    proof (cases ro)
      case None
      with Inr show ?thesis
        by (simp add: save_entry_entry_row Cons.IH split: sum.split)
    next
      case (Some r)
      have "entry_rows (insert_or_replace db r) es = entry_rows db es"
        by (rule entry_rows_cong) simp
      with Inr Some show ?thesis
        by (simp add: save_entry_entry_row Cons.IH split: sum.split)
    qed
  qed
qed

lemma interfaces_foldl [simp]: "interfaces (foldl insert_or_replace db rs) = interfaces db"
  by (induction rs arbitrary: db) simp_all

lemma row_key_clear [simp]: "row_key (r\<lparr>row_id := k\<rparr>) = row_key r"
  by (simp add: row_key_def)

lemma stored_insert_or_replace:
  "stored_records (insert_or_replace db r) = upsert r (stored_records db)"
  by (simp add: stored_records_def insert_or_replace_def upsert_def filter_map comp_def)

lemma stored_foldl:
  "stored_records (foldl insert_or_replace db rs) = fold upsert rs (stored_records db)"
  by (induction rs arbitrary: db) (simp_all add: stored_insert_or_replace)

lemma fold_upsert_split:
  "fold upsert rs xs = filter (\<lambda>x. row_key x \<notin> row_key ` set rs) xs @ fold upsert rs []"
proof (induction rs arbitrary: xs)
  case Nil
  then show ?case by simp
next
  case (Cons r rs)
  have "fold upsert (r # rs) xs = fold upsert rs (upsert r xs)" by simp
  also have "\<dots> = filter (\<lambda>x. row_key x \<notin> row_key ` set rs) (upsert r xs) @ fold upsert rs []"
    by (rule Cons.IH)
  also have "filter (\<lambda>x. row_key x \<notin> row_key ` set rs) (upsert r xs) =
      filter (\<lambda>x. row_key x \<notin> row_key ` set (r # rs)) xs @
      filter (\<lambda>x. row_key x \<notin> row_key ` set rs) (upsert r [])"
    by (auto simp: upsert_def intro: filter_cong)
  also have "(filter (\<lambda>x. row_key x \<notin> row_key ` set (r # rs)) xs @
      filter (\<lambda>x. row_key x \<notin> row_key ` set rs) (upsert r [])) @ fold upsert rs [] =
      filter (\<lambda>x. row_key x \<notin> row_key ` set (r # rs)) xs @ fold upsert (r # rs) []"
    using Cons.IH [of "upsert r []"] by simp
  finally show ?case .
qed

lemma keys_fold_upsert:
  "row_key ` set (fold upsert rs xs) = row_key ` set xs \<union> row_key ` set rs"
  by (induction rs arbitrary: xs) (auto simp: upsert_def)



lemma entry_rows_append:
  "entry_rows db (es1 @ es2) =
     (case entry_rows db es1 of
        Inl err \<Rightarrow> Inl err
      | Inr rs1 \<Rightarrow> (case entry_rows db es2 of Inl err \<Rightarrow> Inl err | Inr rs2 \<Rightarrow> Inr (rs1 @ rs2)))"
  by (induction es1) (auto split: sum.split option.split)

lemma parse_empty_text: "parse_bandwidth_data [] = []"
  by (simp add: parser_eval string_eval)

lemma upload_data_entry_rows:
  "upload_data db t =
     (if parse_bandwidth_data t = [] then
        (failure (if t = [] then Nenhum_dado_fornecido else Nenhum_dado_valido), db)
      else (case entry_rows db (parse_bandwidth_data t) of
              Inl err \<Rightarrow> (failure (Erro err), db)
            | Inr rs \<Rightarrow>
                (\<lparr>success = True, message = Dados_processados (length rs),
                  records = Some (length rs)\<rparr>, foldl insert_or_replace db rs)))"
  by (auto simp: upload_data_def parse_empty_text save_entries_entry_rows Let_def
      split: sum.split)


section \<open>Unknown interfaces\<close>

text \<open>
  C4.  An entry of the parsed data whose interface name is not in the table \<open>interfaces\<close>
  is dropped without a trace: the loop leaves the database as it is and adds 0 to
  \<open>records_saved\<close> for it, whatever its values are (they are never converted, so they
  raise nothing), and the whole upload answers and stores what it would without that
  entry.
\<close>

theorem C4_unknown_interface_dropped:
  assumes "parse_bandwidth_data t = es1 @ e # es2"
    and "select_interface_id db (interface e) = None"
  shows "save_entry db e = Inr (db, 0)
    \<and> upload_data db t =
        (case save_entries db (es1 @ es2) 0 of
           Inl err \<Rightarrow> (failure (Erro err), db)
         | Inr (db', n) \<Rightarrow>
             (\<lparr>success = True, message = Dados_processados n, records = Some n\<rparr>, db'))"
proof -
  have row: "entry_row db e = Inr None"
    using assms(2) by (simp add: entry_row_def)
  have "entry_rows db (es1 @ e # es2) = entry_rows db (es1 @ es2)"
    by (simp add: entry_rows_append row split: sum.split)
  then have "save_entries db (es1 @ e # es2) 0 = save_entries db (es1 @ es2) 0"
    by (simp add: save_entries_entry_rows)
  moreover have "t \<noteq> []"
    using assms(1) parse_empty_text by auto
  ultimately show ?thesis
    using assms by (simp add: upload_data_def save_entry_def)
qed

theorem C4_unknown_interface_dropped_witness:
  "upload_data init_db
     (''- Ontem (2024-03-15)'' @ [CHR 0x0A] @ ''--- Interface XYZ'' @ [CHR 0x0A] @
      ''Entrada: abc'') =
   (\<lparr>success = True, message = Dados_processados 0, records = Some 0\<rparr>, init_db)"
proof -
  let ?e = "\<lparr>interface = ''XYZ'', data_referencia = ''2024-03-15'', periodo = ''diario'',
             entrada = Some ''abc'', saida = None, total = None, taxa_media = None\<rparr>"
  have p: "parse_bandwidth_data
     (''- Ontem (2024-03-15)'' @ [CHR 0x0A] @ ''--- Interface XYZ'' @ [CHR 0x0A] @
      ''Entrada: abc'') = [] @ ?e # []"
    by (simp add: parser_eval string_eval cong: weak_congs)
  have u: "select_interface_id init_db (interface ?e) = None"
    by (simp add: select_interface_id_def init_db_def)
  show ?thesis
    using C4_unknown_interface_dropped [OF p u] by (simp add: failure_def)
qed

section \<open>Uploading the same text twice\<close>


section \<open>Sections of the same interface, date and period\<close>

lemma distinct_fold_upsert:
  "distinct (map row_key xs) \<Longrightarrow> distinct (map row_key (fold upsert rs xs))"
proof (induction rs arbitrary: xs)
  case Nil
  then show ?case by simp
next
  case (Cons r rs)
  have "distinct (map row_key (upsert r xs))"
    using Cons.prems by (auto simp: upsert_def distinct_map_filter)
  then show ?case
    using Cons.IH by simp
qed

lemma length_fold_upsert_nil: "length (fold upsert rs []) = card (row_key ` set rs)"
proof -
  have "distinct (map row_key (fold upsert rs []))"
    by (rule distinct_fold_upsert) simp
  then have "card (set (map row_key (fold upsert rs []))) = length (map row_key (fold upsert rs []))"
    by (rule distinct_card)
  then show ?thesis
    using keys_fold_upsert [of rs "[]"] by simp
qed

lemma card_keys_less:
  assumes "\<not> distinct (map row_key rs)"
  shows "card (row_key ` set rs) < length rs"
proof -
  have "card (set (map row_key rs)) \<le> length (map row_key rs)"
    by (rule card_length)
  moreover have "card (set (map row_key rs)) \<noteq> length (map row_key rs)"
    using assms card_distinct by blast
  ultimately show ?thesis by simp
qed

lemma length_entry_rows:
  "entry_rows db es = Inr rs \<Longrightarrow>
   length rs = length (filter (\<lambda>e. select_interface_id db (interface e) \<noteq> None) es)"
proof (induction es arbitrary: rs)
  case Nil
  then show ?case by simp
next
  case (Cons e es)
  then show ?case
    by (auto simp: entry_row_def split: sum.splits option.splits prod.splits if_splits)
qed

lemma entry_row_key:
  "entry_row db e = Inr (Some r) \<Longrightarrow>
   \<exists>iid. select_interface_id db (interface e) = Some iid
     \<and> row_key r = (iid, data_referencia e, periodo e)"
  by (auto simp: entry_row_def make_row_def row_key_def
      split: sum.splits option.splits prod.splits if_splits)

lemma entry_row_known:
  "entry_row db e = Inr None \<Longrightarrow> select_interface_id db (interface e) = None"
  by (auto simp: entry_row_def split: sum.splits option.splits prod.splits if_splits)

lemma stored_length [simp]: "length (stored_records db) = length (consumo_banda db)"
  by (simp add: stored_records_def)

lemma stored_keys [simp]: "map row_key (stored_records db) = map row_key (consumo_banda db)"
  by (simp add: stored_records_def comp_def)

lemmas save_eval =
  save_entry_def select_interface_id_def convert_values_def convert_absent convert_1_00GiB
  convert_1_50GiB sqlite_integer_def insert_or_replace_def make_row_def row_key_def init_db_def

lemma parse_two_sections:
  "parse_bandwidth_data
     (''- Ontem (2024-03-15)'' @ [CHR 0x0A] @ ''--- Interface WAN'' @ [CHR 0x0A] @
      ''Entrada: 1.00GiB'' @ [CHR 0x0A] @ ''--- Interface WAN'' @ [CHR 0x0A] @
      ''Entrada: 1.50GiB'') =
   [] @ \<lparr>interface = ''WAN'', data_referencia = ''2024-03-15'', periodo = ''diario'',
          entrada = Some ''1.00GiB'', saida = None, total = None, taxa_media = None\<rparr> #
   [] @ \<lparr>interface = ''WAN'', data_referencia = ''2024-03-15'', periodo = ''diario'',
          entrada = Some ''1.50GiB'', saida = None, total = None, taxa_media = None\<rparr> # []"
  by (simp add: parser_eval string_eval cong: weak_congs)

lemma parse_entrada_1_00:
  "parse_bandwidth_data
     (''- Ontem (2024-03-15)'' @ [CHR 0x0A] @ ''--- Interface WAN'' @ [CHR 0x0A] @
      ''Entrada: 1.00GiB'') =
   [\<lparr>interface = ''WAN'', data_referencia = ''2024-03-15'', periodo = ''diario'',
      entrada = Some ''1.00GiB'', saida = None, total = None, taxa_media = None\<rparr>]"
  by (simp add: parser_eval string_eval cong: weak_congs)

lemma parse_entrada_1_50:
  "parse_bandwidth_data
     (''- Ontem (2024-03-15)'' @ [CHR 0x0A] @ ''--- Interface WAN'' @ [CHR 0x0A] @
      ''Entrada: 1.50GiB'') =
   [\<lparr>interface = ''WAN'', data_referencia = ''2024-03-15'', periodo = ''diario'',
      entrada = Some ''1.50GiB'', saida = None, total = None, taxa_media = None\<rparr>]"
  by (simp add: parser_eval string_eval cong: weak_congs)

lemma filter_key_fold_upsert:
  assumes "k \<in> row_key ` set rs"
  shows "filter (\<lambda>x. row_key x = k) (fold upsert rs xs) =
     [(last (filter (\<lambda>r. row_key r = k) rs))\<lparr>row_id := 0\<rparr>]"
  using assms
proof (induction rs rule: rev_induct)
  case Nil
  then show ?case by simp
next
  case (snoc r rs)
  define ys where "ys = fold upsert rs xs"
  have step: "fold upsert (rs @ [r]) xs =
      filter (\<lambda>x. row_key x \<noteq> row_key r) ys @ [r\<lparr>row_id := 0\<rparr>]"
    by (simp add: ys_def [symmetric]) (simp add: upsert_def)
  show ?case
  proof (cases "row_key r = k")
    case True
    then show ?thesis
      unfolding step by auto
  next
    case False
    with snoc.prems have k: "k \<in> row_key ` set rs" by auto
    have "filter (\<lambda>x. row_key x = k) (filter (\<lambda>x. row_key x \<noteq> row_key r) ys) =
        filter (\<lambda>x. row_key x = k) ys"
      using False by (auto intro: filter_cong)
    then show ?thesis
      unfolding step using False snoc.IH [OF k] by (simp add: ys_def)
  qed
qed

lemma length_fold_upsert_exact:
  "length (fold upsert rs xs) =
     length (filter (\<lambda>x. row_key x \<notin> row_key ` set rs) xs) + card (row_key ` set rs)"
  by (subst fold_upsert_split) (simp add: length_fold_upsert_nil)

lemma keys_entry_rows:
  "entry_rows db es = Inr rs \<Longrightarrow>
   map row_key rs =
     map (\<lambda>e. (the (select_interface_id db (interface e)), data_referencia e, periodo e))
       (filter (\<lambda>e. select_interface_id db (interface e) \<noteq> None) es)"
proof (induction es arbitrary: rs)
  case Nil
  then show ?case by simp
next
  case (Cons e es)
  from Cons.prems obtain ro rs' where ro: "entry_row db e = Inr ro"
    and rs': "entry_rows db es = Inr rs'"
    and rs: "rs = (case ro of None \<Rightarrow> rs' | Some r \<Rightarrow> r # rs')"
    by (auto split: sum.splits)
  show ?case
  proof (cases ro)
    case None
    with ro have "select_interface_id db (interface e) = None"
      by (simp add: entry_row_known)
    with None rs Cons.IH [OF rs'] show ?thesis by simp
  next
    case (Some r)
    with ro obtain iid where "select_interface_id db (interface e) = Some iid"
      "row_key r = (iid, data_referencia e, periodo e)"
      by (auto dest: entry_row_key)
    with Some rs Cons.IH [OF rs'] show ?thesis by simp
  qed
qed

lemma filter_stored:
  "filter (\<lambda>x. row_key x = k) (stored_records db) =
     map (\<lambda>r. r\<lparr>row_id := 0\<rparr>) (filter (\<lambda>x. row_key x = k) (consumo_banda db))"
  by (simp add: stored_records_def filter_map comp_def)

lemma entry_rows_two_sections:
  "entry_rows init_db
     ([] @ \<lparr>interface = ''WAN'', data_referencia = ''2024-03-15'', periodo = ''diario'',
          entrada = Some ''1.00GiB'', saida = None, total = None, taxa_media = None\<rparr> #
      [] @ \<lparr>interface = ''WAN'', data_referencia = ''2024-03-15'', periodo = ''diario'',
          entrada = Some ''1.50GiB'', saida = None, total = None, taxa_media = None\<rparr> # []) =
   Inr [\<lparr>row_id = 0, interface_id = 1, col_data_referencia = ''2024-03-15'',
          col_periodo = ''diario'', entrada_bytes = 1073741824, saida_bytes = 0,
          total_bytes = 0, taxa_media_bps = 0\<rparr>,
        \<lparr>row_id = 0, interface_id = 1, col_data_referencia = ''2024-03-15'',
          col_periodo = ''diario'', entrada_bytes = 1610612736, saida_bytes = 0,
          total_bytes = 0, taxa_media_bps = 0\<rparr>]"
  by (simp add: entry_row_def select_interface_id_def convert_values_def convert_absent
      convert_1_00GiB convert_1_50GiB sqlite_integer_def make_row_def init_db_def)

text \<open>
  C10.  When the text has two sections of the same known interface under the same date and
  period and the upload succeeds, the sections of known interfaces give the rows \<open>rs\<close>, one
  for each section and with its interface, date and period as key, and \<open>records\<close> in the
  answer is their number, the two sections counted twice.  The keys of \<open>rs\<close> are fewer than
  that.  The table after the call holds the rows it had under other keys, unchanged, and
  exactly one row for each key of \<open>rs\<close>, the row of the last section with that key; so it
  has as many rows as it kept plus the number of keys.  On an empty table the answer
  therefore reports more records than the table holds.
\<close>

theorem C10_records_saved_counts_sections:
  assumes parsed: "parse_bandwidth_data t = es1 @ e1 # es2 @ e2 # es3"
    and same: "interface e2 = interface e1" "data_referencia e2 = data_referencia e1"
      "periodo e2 = periodo e1"
    and known: "select_interface_id db (interface e1) = Some iid"
    and ok: "success (fst (upload_data db t))"
  shows "\<exists>rs. entry_rows db (parse_bandwidth_data t) = Inr rs
    \<and> map row_key rs =
        map (\<lambda>e. (the (select_interface_id db (interface e)), data_referencia e, periodo e))
          (filter (\<lambda>e. select_interface_id db (interface e) \<noteq> None) (parse_bandwidth_data t))
    \<and> records (fst (upload_data db t)) = Some (length rs)
    \<and> (iid, data_referencia e1, periodo e1) \<in> row_key ` set rs
    \<and> card (row_key ` set rs) < length rs
    \<and> length (consumo_banda (snd (upload_data db t))) =
        length (filter (\<lambda>x. row_key x \<notin> row_key ` set rs) (consumo_banda db))
        + card (row_key ` set rs)
    \<and> (\<forall>k \<in> row_key ` set rs.
         filter (\<lambda>x. row_key x = k) (stored_records (snd (upload_data db t))) =
           [(last (filter (\<lambda>r. row_key r = k) rs))\<lparr>row_id := 0\<rparr>])
    \<and> filter (\<lambda>x. row_key x \<notin> row_key ` set rs) (stored_records (snd (upload_data db t))) =
        filter (\<lambda>x. row_key x \<notin> row_key ` set rs) (stored_records db)"
proof -
  let ?es = "parse_bandwidth_data t"
  have ne: "?es \<noteq> []" using parsed by simp
  obtain rs where rs: "entry_rows db ?es = Inr rs"
    using ok ne by (cases "entry_rows db ?es") (simp_all add: upload_data_entry_rows failure_def)
  have up: "upload_data db t =
      (\<lparr>success = True, message = Dados_processados (length rs), records = Some (length rs)\<rparr>,
       foldl insert_or_replace db rs)"
    using ne rs by (simp add: upload_data_entry_rows)
  have keys: "map row_key rs =
        map (\<lambda>e. (the (select_interface_id db (interface e)), data_referencia e, periodo e))
          (filter (\<lambda>e. select_interface_id db (interface e) \<noteq> None) ?es)"
    by (rule keys_entry_rows [OF rs])
  obtain ra r1 rb r2 rc where split: "rs = ra @ r1 # rb @ r2 # rc"
    and r1: "entry_row db e1 = Inr (Some r1)" and r2: "entry_row db e2 = Inr (Some r2)"
  proof -
    from rs parsed have "entry_rows db (es1 @ e1 # es2 @ e2 # es3) = Inr rs" by simp
    then obtain ra rest where a: "entry_rows db es1 = Inr ra"
      and b: "entry_rows db (e1 # es2 @ e2 # es3) = Inr rest" and c: "rs = ra @ rest"
      by (auto simp: entry_rows_append split: sum.splits)
    from b known obtain r1 rest' where d: "entry_row db e1 = Inr (Some r1)"
      and e: "entry_rows db (es2 @ e2 # es3) = Inr rest'" and f: "rest = r1 # rest'"
      by (auto split: sum.splits option.splits dest: entry_row_known)
    from e obtain rb rest'' where g: "entry_rows db es2 = Inr rb"
      and h: "entry_rows db (e2 # es3) = Inr rest''" and i: "rest' = rb @ rest''"
      by (auto simp: entry_rows_append split: sum.splits)
    from h known same obtain r2 rc where j: "entry_row db e2 = Inr (Some r2)"
      and k: "rest'' = r2 # rc"
      by (auto split: sum.splits option.splits dest: entry_row_known)
    from c f i k d j that show ?thesis by simp
  qed
  have k1: "row_key r1 = (iid, data_referencia e1, periodo e1)"
    using entry_row_key [OF r1] known by auto
  have "row_key r1 = row_key r2"
    using k1 entry_row_key [OF r2] same known by auto
  then have "\<not> distinct (map row_key rs)"
    by (simp add: split)
  then have less: "card (row_key ` set rs) < length rs"
    by (rule card_keys_less)
  have mem: "(iid, data_referencia e1, periodo e1) \<in> row_key ` set rs"
    using k1 [symmetric] by (simp add: split)
  have st: "stored_records (foldl insert_or_replace db rs) = fold upsert rs (stored_records db)"
    by (rule stored_foldl)
  have "length (consumo_banda (foldl insert_or_replace db rs)) =
      length (fold upsert rs (stored_records db))"
    using st stored_length [of "foldl insert_or_replace db rs"] by simp
  also have "\<dots> = length (filter (\<lambda>x. row_key x \<notin> row_key ` set rs) (stored_records db))
      + card (row_key ` set rs)"
    by (rule length_fold_upsert_exact)
  also have "length (filter (\<lambda>x. row_key x \<notin> row_key ` set rs) (stored_records db)) =
      length (filter (\<lambda>x. row_key x \<notin> row_key ` set rs) (consumo_banda db))"
    by (simp add: stored_records_def filter_map comp_def)
  finally have count: "length (consumo_banda (foldl insert_or_replace db rs)) =
      length (filter (\<lambda>x. row_key x \<notin> row_key ` set rs) (consumo_banda db))
      + card (row_key ` set rs)" .
  have one: "\<forall>k \<in> row_key ` set rs.
      filter (\<lambda>x. row_key x = k) (stored_records (foldl insert_or_replace db rs)) =
        [(last (filter (\<lambda>r. row_key r = k) rs))\<lparr>row_id := 0\<rparr>]"
    unfolding st by (intro ballI filter_key_fold_upsert)
  have e: "filter (\<lambda>x. row_key x \<notin> row_key ` set rs) (fold upsert rs []) = []"
    using keys_fold_upsert [of rs "[]"] by (auto simp: filter_empty_conv)
  have "filter (\<lambda>x. row_key x \<notin> row_key ` set rs) (fold upsert rs (stored_records db)) =
      filter (\<lambda>x. row_key x \<notin> row_key ` set rs) (stored_records db)"
    by (subst fold_upsert_split) (simp add: e)
  then have rest: "filter (\<lambda>x. row_key x \<notin> row_key ` set rs)
        (stored_records (foldl insert_or_replace db rs)) =
      filter (\<lambda>x. row_key x \<notin> row_key ` set rs) (stored_records db)"
    by (simp only: st)
  show ?thesis
  proof (intro exI conjI)
    show "entry_rows db ?es = Inr rs" by (rule rs)
    show "map row_key rs =
        map (\<lambda>e. (the (select_interface_id db (interface e)), data_referencia e, periodo e))
          (filter (\<lambda>e. select_interface_id db (interface e) \<noteq> None) ?es)"
      by (rule keys)
    show "records (fst (upload_data db t)) = Some (length rs)"
      by (simp add: up)
    show "(iid, data_referencia e1, periodo e1) \<in> row_key ` set rs" by (rule mem)
    show "card (row_key ` set rs) < length rs" by (rule less)
    show "length (consumo_banda (snd (upload_data db t))) =
        length (filter (\<lambda>x. row_key x \<notin> row_key ` set rs) (consumo_banda db))
        + card (row_key ` set rs)"
      using count by (simp add: up)
    show "\<forall>k \<in> row_key ` set rs.
         filter (\<lambda>x. row_key x = k) (stored_records (snd (upload_data db t))) =
           [(last (filter (\<lambda>r. row_key r = k) rs))\<lparr>row_id := 0\<rparr>]"
      using one by (simp add: up)
    show "filter (\<lambda>x. row_key x \<notin> row_key ` set rs) (stored_records (snd (upload_data db t))) =
        filter (\<lambda>x. row_key x \<notin> row_key ` set rs) (stored_records db)"
      using rest by (simp add: up)
  qed
qed



theorem C10_records_saved_counts_sections_witness:
  "records (fst (upload_data init_db
     (''- Ontem (2024-03-15)'' @ [CHR 0x0A] @ ''--- Interface WAN'' @ [CHR 0x0A] @
      ''Entrada: 1.00GiB'' @ [CHR 0x0A] @ ''--- Interface WAN'' @ [CHR 0x0A] @
      ''Entrada: 1.50GiB''))) = Some 2
   \<and> length (consumo_banda (snd (upload_data init_db
     (''- Ontem (2024-03-15)'' @ [CHR 0x0A] @ ''--- Interface WAN'' @ [CHR 0x0A] @
      ''Entrada: 1.00GiB'' @ [CHR 0x0A] @ ''--- Interface WAN'' @ [CHR 0x0A] @
      ''Entrada: 1.50GiB'')))) = 1
   \<and> filter (\<lambda>x. row_key x = (1, ''2024-03-15'', ''diario''))
       (stored_records (snd (upload_data init_db
     (''- Ontem (2024-03-15)'' @ [CHR 0x0A] @ ''--- Interface WAN'' @ [CHR 0x0A] @
      ''Entrada: 1.00GiB'' @ [CHR 0x0A] @ ''--- Interface WAN'' @ [CHR 0x0A] @
      ''Entrada: 1.50GiB'')))) =
       [\<lparr>row_id = 0, interface_id = 1, col_data_referencia = ''2024-03-15'',
          col_periodo = ''diario'', entrada_bytes = 1610612736, saida_bytes = 0,
          total_bytes = 0, taxa_media_bps = 0\<rparr>]"
proof -
  let ?t = "''- Ontem (2024-03-15)'' @ [CHR 0x0A] @ ''--- Interface WAN'' @ [CHR 0x0A] @
      ''Entrada: 1.00GiB'' @ [CHR 0x0A] @ ''--- Interface WAN'' @ [CHR 0x0A] @
      ''Entrada: 1.50GiB''"
  let ?r1 = "\<lparr>row_id = 0, interface_id = 1, col_data_referencia = ''2024-03-15'',
          col_periodo = ''diario'', entrada_bytes = 1073741824, saida_bytes = 0,
          total_bytes = 0, taxa_media_bps = 0\<rparr>"
  let ?r2 = "\<lparr>row_id = 0, interface_id = 1, col_data_referencia = ''2024-03-15'',
          col_periodo = ''diario'', entrada_bytes = 1610612736, saida_bytes = 0,
          total_bytes = 0, taxa_media_bps = 0\<rparr>"
  have known: "select_interface_id init_db
      (interface \<lparr>interface = ''WAN'', data_referencia = ''2024-03-15'', periodo = ''diario'',
          entrada = Some ''1.00GiB'', saida = None, total = None, taxa_media = None\<rparr>) = Some 1"
    by (simp add: select_interface_id_def init_db_def)
  have ok: "success (fst (upload_data init_db ?t))"
    unfolding upload_data_def parse_two_sections by (simp add: save_eval)
  have rows: "entry_rows init_db (parse_bandwidth_data ?t) = Inr [?r1, ?r2]"
    unfolding parse_two_sections by (rule entry_rows_two_sections)
  have keys: "row_key ` set [?r1, ?r2] = {(1, ''2024-03-15'', ''diario'')}"
    by (simp add: row_key_def)
  have last: "last (filter (\<lambda>r. row_key r = (1, ''2024-03-15'', ''diario'')) [?r1, ?r2]) = ?r2"
    by (simp add: row_key_def)
  have empty: "consumo_banda init_db = []"
    by (simp add: init_db_def)
  from C10_records_saved_counts_sections [OF parse_two_sections _ _ _ known ok]
  obtain rs where rs: "entry_rows init_db (parse_bandwidth_data ?t) = Inr rs"
    and n: "records (fst (upload_data init_db ?t)) = Some (length rs)"
    and c: "length (consumo_banda (snd (upload_data init_db ?t))) =
        length (filter (\<lambda>x. row_key x \<notin> row_key ` set rs) (consumo_banda init_db))
        + card (row_key ` set rs)"
    and one: "\<forall>k \<in> row_key ` set rs.
         filter (\<lambda>x. row_key x = k) (stored_records (snd (upload_data init_db ?t))) =
           [(last (filter (\<lambda>r. row_key r = k) rs))\<lparr>row_id := 0\<rparr>]"
    by auto
  from rs rows have eq: "rs = [?r1, ?r2]"
    by (simp only: sum.inject)
  have a: "records (fst (upload_data init_db ?t)) = Some 2"
    using n by (simp only: eq) simp
  have b: "length (consumo_banda (snd (upload_data init_db ?t))) = 1"
    using c by (simp only: eq keys empty) simp
  have kin: "(1, ''2024-03-15'', ''diario'') \<in> row_key ` set rs"
    by (simp only: eq keys insertI1)
  have "filter (\<lambda>x. row_key x = (1, ''2024-03-15'', ''diario''))
      (stored_records (snd (upload_data init_db ?t))) = [?r2\<lparr>row_id := 0\<rparr>]"
    using bspec [OF one kin] by (simp only: eq last)
  then have d: "filter (\<lambda>x. row_key x = (1, ''2024-03-15'', ''diario''))
      (stored_records (snd (upload_data init_db ?t))) = [?r2]"
    by simp
  from a b d show ?thesis
    by (intro conjI)
qed

section \<open>The answer of an upload\<close>

text \<open>
  C8, as the code has it.  The answer of a successful upload holds the flag, the message
  and the count of the saved records, which is the number of parsed entries of a known
  interface; the type \<open>response\<close> has no field for the records themselves.
\<close>

theorem C8_response_is_a_count:
  assumes "success (fst (upload_data db t))"
  shows "fst (upload_data db t) =
     \<lparr>success = True,
      message = Dados_processados
        (length (filter (\<lambda>e. select_interface_id db (interface e) \<noteq> None)
           (parse_bandwidth_data t))),
      records = Some
        (length (filter (\<lambda>e. select_interface_id db (interface e) \<noteq> None)
           (parse_bandwidth_data t)))\<rparr>"
proof -
  have ne: "parse_bandwidth_data t \<noteq> []"
    using assms by (auto simp: upload_data_entry_rows failure_def)
  then obtain rs where rs: "entry_rows db (parse_bandwidth_data t) = Inr rs"
    using assms
    by (cases "entry_rows db (parse_bandwidth_data t)")
      (simp_all add: upload_data_entry_rows failure_def)
  show ?thesis
    using ne rs length_entry_rows [OF rs] by (simp add: upload_data_entry_rows)
qed

theorem C8_response_is_a_count_witness:
  "fst (upload_data init_db
     (''- Ontem (2024-03-15)'' @ [CHR 0x0A] @ ''--- Interface WAN'' @ [CHR 0x0A] @
      ''Entrada: 1.00GiB'')) =
   \<lparr>success = True, message = Dados_processados 1, records = Some 1\<rparr>"
proof -
  let ?t = "''- Ontem (2024-03-15)'' @ [CHR 0x0A] @ ''--- Interface WAN'' @ [CHR 0x0A] @
      ''Entrada: 1.00GiB''"
  have ok: "success (fst (upload_data init_db ?t))"
    unfolding upload_data_def parse_entrada_1_00 by (simp add: save_eval)
  have n: "length (filter (\<lambda>e. select_interface_id init_db (interface e) \<noteq> None)
      (parse_bandwidth_data ?t)) = 1"
    unfolding parse_entrada_1_00 by (simp add: select_interface_id_def init_db_def)
  show ?thesis
    using C8_response_is_a_count [OF ok] unfolding n by simp
qed

text \<open>
  C8, as the claim states it, fails: two uploads that save different records (1.00GiB and
  1.50GiB of inbound traffic) get the same answer, so the answer does not hold the records.
\<close>

theorem C8_records_not_in_response:
  "fst (upload_data init_db
     (''- Ontem (2024-03-15)'' @ [CHR 0x0A] @ ''--- Interface WAN'' @ [CHR 0x0A] @
      ''Entrada: 1.00GiB'')) =
   fst (upload_data init_db
     (''- Ontem (2024-03-15)'' @ [CHR 0x0A] @ ''--- Interface WAN'' @ [CHR 0x0A] @
      ''Entrada: 1.50GiB''))
   \<and> map entrada_bytes (consumo_banda (snd (upload_data init_db
     (''- Ontem (2024-03-15)'' @ [CHR 0x0A] @ ''--- Interface WAN'' @ [CHR 0x0A] @
      ''Entrada: 1.00GiB'')))) = [1073741824]
   \<and> map entrada_bytes (consumo_banda (snd (upload_data init_db
     (''- Ontem (2024-03-15)'' @ [CHR 0x0A] @ ''--- Interface WAN'' @ [CHR 0x0A] @
      ''Entrada: 1.50GiB'')))) = [1610612736]"
  unfolding upload_data_def parse_entrada_1_00 parse_entrada_1_50 by (simp add: save_eval)

section \<open>Value lines after an ignored section\<close>

lemma search_ymd_nonempty: "search_ymd s = Some d \<Longrightarrow> d \<noteq> []"
proof (induction s)
  case Nil
  then show ?case by simp
next
  case (Cons c cs)
  show ?case
  proof (cases "c = CHR ''('' \<and> matches_ymd cs")
    case True
    then have "cs \<noteq> []" by auto
    with True Cons.prems show ?thesis by auto
  next
    case False
    with Cons show ?thesis by auto
  qed
qed

lemma set_last_nonempty [simp]: "set_last f xs \<noteq> []"
  by (simp add: set_last_def)

text \<open>
  Started as \<^verbatim>\<open>parse_bandwidth_data\<close> starts it, the loop appends a record only under an
  active context and never clears a context, so it holds a record only while a context is
  active.
\<close>

lemma parse_line_invariant:
  assumes "data st \<noteq> [] \<longrightarrow> context_active st"
  shows "data (parse_line st l) \<noteq> [] \<longrightarrow> context_active (parse_line st l)"
  using assms
  by (auto simp: parse_line_def Let_def context_active_def truthy_def
      dest: search_ymd_nonempty split: option.splits)

lemma parse_lines_snoc: "parse_lines (ls @ [l]) = parse_line (parse_lines ls) l"
  by (simp add: parse_lines_def)

lemma parse_lines_invariant:
  "data (parse_lines ls) \<noteq> [] \<longrightarrow> context_active (parse_lines ls)"
proof (induction ls rule: rev_induct)
  case Nil
  then show ?case by (simp add: parse_lines_def initial_state_def)
next
  case (snoc l ls)
  then show ?case
    unfolding parse_lines_snoc by (rule parse_line_invariant)
qed









section \<open>Truncation toward zero\<close>

lemma floor_nat_div_pow2: "\<lfloor>real m / 2 ^ k\<rfloor> = int m div 2 ^ k"
proof -
  have "real m / 2 ^ k = real_of_int (int m) / real_of_int (2 ^ k)" by simp
  then show ?thesis
    by (simp only: floor_divide_of_int_eq)
qed

lemma py_int_toward_zero: "py_int (Finite neg m e) = Inr (toward_zero (float_val (Finite neg m e)))"
proof (cases "0 \<le> e")
  case True
  then have v: "(2::real) powi e = real_of_int (2 ^ nat e)"
    by (simp add: power_int_def)
  have "float_val (Finite neg m e) = real_of_int ((if neg then - 1 else 1) * (int m * 2 ^ nat e))"
    by (simp add: float_val_def v)
  then show ?thesis
    using True by (simp add: py_int_def toward_zero_def Let_def del: of_int_mult of_int_power)
next
  case False
  then have v: "(2::real) powi e = 1 / 2 ^ nat (- e)"
    by (simp add: power_int_def field_simps)
  have fl: "\<lfloor>real m / 2 ^ nat (- e)\<rfloor> = int m div 2 ^ nat (- e)"
    by (rule floor_nat_div_pow2)
  show ?thesis
  proof (cases neg)
    case False
    with \<open>\<not> 0 \<le> e\<close> show ?thesis
      by (simp add: py_int_def toward_zero_def Let_def float_val_def v fl)
  next
    case True
    show ?thesis
    proof (cases "m = 0")
      case True
      with \<open>neg\<close> \<open>\<not> 0 \<le> e\<close> show ?thesis
        by (simp add: py_int_def toward_zero_def Let_def float_val_def)
    next
      case False
      have "(0::real) < 2 ^ nat (- e)" by simp
      with False have "0 < real m / 2 ^ nat (- e)" by simp
      then have lt: "\<not> 0 \<le> - (real m / 2 ^ nat (- e))" by simp
      have "\<lceil>- (real m / 2 ^ nat (- e))\<rceil> = - (int m div 2 ^ nat (- e))"
        using fl by (simp add: ceiling_minus)
      with lt \<open>neg\<close> \<open>\<not> 0 \<le> e\<close> show ?thesis
        by (simp add: py_int_def toward_zero_def Let_def float_val_def v)
    qed
  qed
qed

lemma convert_2_58TiB: "convert_to_bytes (Some ''2.58TiB'') = Inr 2836739999662"
  by (simp add: convert_eval py_float_eval float_eval string_eval cong: weak_congs)

lemma convert_500: "convert_to_bytes (Some ''500'') = Inr 500"
  by (simp add: convert_eval py_float_eval float_eval string_eval cong: weak_congs)

lemma convert_1_9: "convert_to_bytes (Some ''1.9'') = Inr 1"
  by (simp add: convert_eval py_float_eval float_eval string_eval cong: weak_congs)

lemma py_int_Inr:
  assumes "py_int x = Inr n"
  shows "n = toward_zero (float_val x)"
proof (cases x)
  case (Finite neg m e)
  with assms py_int_toward_zero [of neg m e] show ?thesis by simp
next
  case (Infinity neg)
  with assms show ?thesis by (simp add: py_int_def)
next
  case NaN
  with assms show ?thesis by (simp add: py_int_def)
qed

text \<open>
  C7.  \<open>convert_to_bytes\<close> gives 2836739999662 for 2.58TiB, which is 2.58 * 1024^4 cut
  to its integer part, 0 for the empty string and 500 for 500.  In general, for every text
  but the empty one and \<open>None\<close> that it converts, the result is the float it computed, the
  number read by \<open>py_float\<close> times the multiplier of the unit (or the whole text read by
  \<open>py_float\<close> when the pattern does not match), truncated toward zero: 1.9 gives 1, not 2.
\<close>

theorem C7_parse_size_truncates:
  "convert_to_bytes (Some ''2.58TiB'') = Inr 2836739999662
   \<and> (2836739999662 :: int) = 258 * 1024 ^ 4 div 100
   \<and> convert_to_bytes (Some []) = Inr 0
   \<and> convert_to_bytes (Some ''500'') = Inr 500
   \<and> convert_to_bytes (Some ''1.9'') = Inr 1
   \<and> (\<forall>v n. v \<noteq> [] \<and> v \<noteq> ''None'' \<and> convert_to_bytes (Some v) = Inr n \<longrightarrow>
         (\<exists>x. (case match_size (replace (lower v) '' '' []) of
                  Some (number, u) \<Rightarrow>
                    \<exists>y. py_float number = Inr y \<and> x = float_mul_int y (units_get size_units u)
                | None \<Rightarrow> py_float (replace (lower v) '' '' []) = Inr x)
              \<and> py_int x = Inr n \<and> n = toward_zero (float_val x)))"
proof -
  have general: "\<exists>x. (case match_size (replace (lower v) '' '' []) of
                  Some (number, u) \<Rightarrow>
                    \<exists>y. py_float number = Inr y \<and> x = float_mul_int y (units_get size_units u)
                | None \<Rightarrow> py_float (replace (lower v) '' '' []) = Inr x)
              \<and> py_int x = Inr n \<and> n = toward_zero (float_val x)"
    if "v \<noteq> []" "v \<noteq> ''None''" "convert_to_bytes (Some v) = Inr n" for v n
  proof (cases "match_size (replace (lower v) '' '' [])")
    case None
    with that obtain x where "py_float (replace (lower v) '' '' []) = Inr x" "py_int x = Inr n"
      by (auto simp: convert_to_bytes_def int_of_float_text_def Let_def split: sum.splits)
    with None show ?thesis
      using py_int_Inr by auto
  next
    case (Some a)
    obtain number u where a: "a = (number, u)" by (cases a)
    with that Some obtain y where "py_float number = Inr y"
      "py_int (float_mul_int y (units_get size_units u)) = Inr n"
      by (auto simp: convert_to_bytes_def scaled_int_def Let_def split: sum.splits)
    with Some a show ?thesis
      using py_int_Inr by auto
  qed
  have "(2836739999662 :: int) = 258 * 1024 ^ 4 div 100" by simp
  moreover have "convert_to_bytes (Some []) = Inr 0" by (simp add: convert_to_bytes_def)
  ultimately show ?thesis
    using convert_2_58TiB convert_500 convert_1_9 general by blast
qed

lemma match_size_2_58tib: "match_size (replace (lower ''2.58TiB'') '' '' []) = Some (''2.58'', ''tib'')"
  by (simp add: match_size_def string_eval)

theorem C7_parse_size_truncates_witness:
  "\<exists>x. (\<exists>y. py_float ''2.58'' = Inr y \<and> x = float_mul_int y (1024 ^ 4))
     \<and> py_int x = Inr 2836739999662 \<and> 2836739999662 = toward_zero (float_val x)"
proof -
  have u: "units_get size_units ''tib'' = 1024 ^ 4"
    by (simp add: units_get_def size_units_def)
  have "''2.58TiB'' \<noteq> [] \<and> ''2.58TiB'' \<noteq> ''None''
      \<and> convert_to_bytes (Some ''2.58TiB'') = Inr 2836739999662"
    using C7_parse_size_truncates by simp
  then have "\<exists>x. (case match_size (replace (lower ''2.58TiB'') '' '' []) of
                  Some (number, u) \<Rightarrow>
                    \<exists>y. py_float number = Inr y \<and> x = float_mul_int y (units_get size_units u)
                | None \<Rightarrow> py_float (replace (lower ''2.58TiB'') '' '' []) = Inr x)
              \<and> py_int x = Inr 2836739999662 \<and> 2836739999662 = toward_zero (float_val x)"
    using C7_parse_size_truncates by blast
  then show ?thesis
    unfolding match_size_2_58tib by (simp add: u)
qed

section \<open>The sign of the converted fields\<close>

lemma to_double_sign: "is_negative (to_double neg p q) = neg"
  by (simp add: to_double_def is_negative_def Let_def)

lemma float_mul_int_sign: "is_negative (float_mul_int x k) = is_negative x"
  by (cases x) (simp_all add: float_mul_int_def to_double_sign, simp_all add: is_negative_def)

lemma py_int_nonneg: "py_int x = Inr n \<Longrightarrow> \<not> is_negative x \<Longrightarrow> 0 \<le> n"
  by (cases x) (auto simp: py_int_def is_negative_def Let_def pos_imp_zdiv_nonneg_iff)

lemma parse_decimal_sign: "parse_decimal neg s = Inr x \<Longrightarrow> is_negative x = neg"
  by (auto simp: parse_decimal_def Let_def to_double_sign split: if_splits option.splits)

lemma parse_sign_no_minus: "CHR ''-'' \<notin> set s \<Longrightarrow> parse_sign s = (neg, u) \<Longrightarrow> \<not> neg"
  by (cases s) (auto simp: parse_sign_def split: if_splits)

lemma py_float_no_minus:
  assumes "CHR ''-'' \<notin> set s" and "py_float s = Inr x"
  shows "\<not> is_negative x"
proof -
  let ?t = "rev (dropWhile float_space (rev (dropWhile float_space
              (filter (\<lambda>c. c \<noteq> CHR ''_'') s))))"
  have "set ?t \<subseteq> set s"
    by (auto dest!: set_dropWhileD)
  with assms(1) have t: "CHR ''-'' \<notin> set ?t" by blast
  obtain neg u where p: "parse_sign ?t = (neg, u)" by (cases "parse_sign ?t")
  have n: "\<not> neg" by (rule parse_sign_no_minus [OF t p])
  from assms(2) p have "x = Infinity neg \<or> x = NaN \<or> parse_decimal neg u = Inr x"
    by (auto simp: py_float_def split: if_splits)
  with n show ?thesis
    by (auto simp: is_negative_def dest: parse_decimal_sign)
qed

lemma set_replace_delete_aux:
  "new = [] \<Longrightarrow> old \<noteq> [] \<Longrightarrow> set (replace s old new) \<subseteq> set s"
proof (induction s old new rule: replace.induct)
  case (1 s new)
  then show ?case by simp
next
  case (2 p ps new)
  then show ?case by simp
next
  case (3 c cs p ps new)
  then show ?case
    using set_drop_subset [of "length ps" cs] by auto
qed

lemma set_replace_delete: "set (replace s (p # ps) []) \<subseteq> set s"
  by (rule set_replace_delete_aux) simp_all

lemma lower_char_minus: "lower_char c = CHR ''-'' \<Longrightarrow> c = CHR ''-''"
  by (simp add: lower_char_table split: if_splits)

lemma lower_no_minus:
  assumes "CHR ''-'' \<notin> set s"
  shows "CHR ''-'' \<notin> set (lower s)"
proof
  assume "CHR ''-'' \<in> set (lower s)"
  then obtain c where "c \<in> set s" and "lower_char c = CHR ''-''"
    by (auto simp: lower_def)
  then show False
    using assms lower_char_minus by blast
qed

lemma clean_no_minus: "CHR ''-'' \<notin> set s \<Longrightarrow> CHR ''-'' \<notin> set (replace (lower s) '' '' [])"
  using lower_no_minus set_replace_delete by blast

lemma number_no_minus: "CHR ''-'' \<notin> set (takeWhile is_number_char s)"
proof
  assume "CHR ''-'' \<in> set (takeWhile is_number_char s)"
  then have "is_number_char (CHR ''-'')" by (rule set_takeWhileD [THEN conjunct2])
  then show False by (simp add: is_number_char_def is_digit_def)
qed

lemma scaled_int_nonneg:
  assumes "scaled_int (takeWhile is_number_char s) k = Inr n"
  shows "0 \<le> n"
proof -
  from assms obtain y where y: "py_float (takeWhile is_number_char s) = Inr y"
    and n: "py_int (float_mul_int y k) = Inr n"
    by (auto simp: scaled_int_def split: sum.splits)
  have "\<not> is_negative y" by (rule py_float_no_minus [OF number_no_minus y])
  then show ?thesis
    using n py_int_nonneg float_mul_int_sign by blast
qed

lemma int_of_float_text_nonneg:
  assumes "CHR ''-'' \<notin> set s" and "int_of_float_text s = Inr n"
  shows "0 \<le> n"
proof -
  from assms(2) obtain x where x: "py_float s = Inr x" and n: "py_int x = Inr n"
    by (auto simp: int_of_float_text_def split: sum.splits)
  show ?thesis
    using py_int_nonneg [OF n] py_float_no_minus [OF assms(1) x] by simp
qed

lemma match_size_number:
  "match_size s = Some (number, u) \<Longrightarrow> number = takeWhile is_number_char s"
  by (simp add: match_size_def Let_def split: if_splits)

lemma match_speed_number:
  "match_speed s = Some (number, u) \<Longrightarrow> number = takeWhile is_number_char s"
  by (simp add: match_speed_def Let_def split: if_splits)

lemma convert_to_bytes_nonneg:
  assumes "no_minus v" and "convert_to_bytes v = Inr n"
  shows "0 \<le> n"
proof (cases v)
  case None
  with assms show ?thesis by (simp add: convert_to_bytes_def)
next
  case (Some s)
  let ?c = "replace (lower s) '' '' []"
  from Some assms(1) have m: "CHR ''-'' \<notin> set ?c"
    by (simp add: no_minus_def clean_no_minus)
  show ?thesis
  proof (cases "s = [] \<or> s = ''None''")
    case True
    with assms(2) Some show ?thesis
      unfolding convert_to_bytes_def by auto
  next
    case False
    show ?thesis
    proof (cases "match_size ?c")
      case None
      with False assms(2) Some have "int_of_float_text ?c = Inr n"
        unfolding convert_to_bytes_def Let_def by simp
      with m show ?thesis by (rule int_of_float_text_nonneg)
    next
      case (Some a)
      obtain number u where a: "a = (number, u)" by (cases a)
      with False assms(2) Some \<open>v = Some s\<close>
      have "scaled_int number (units_get size_units u) = Inr n"
        unfolding convert_to_bytes_def Let_def by simp
      moreover have "number = takeWhile is_number_char ?c"
        using Some a by (simp add: match_size_number)
      ultimately show ?thesis
        using scaled_int_nonneg by blast
    qed
  qed
qed

lemma convert_speed_to_bps_nonneg:
  assumes "no_minus v" and "convert_speed_to_bps v = Inr n"
  shows "0 \<le> n"
proof (cases v)
  case None
  with assms show ?thesis by (simp add: convert_speed_to_bps_def)
next
  case (Some s)
  let ?c = "replace (lower s) '' '' []"
  from Some assms(1) have m: "CHR ''-'' \<notin> set ?c"
    by (simp add: no_minus_def clean_no_minus)
  show ?thesis
  proof (cases "s = [] \<or> s = ''None''")
    case True
    with assms(2) Some show ?thesis
      unfolding convert_speed_to_bps_def by auto
  next
    case False
    show ?thesis
    proof (cases "match_speed ?c")
      case None
      with False assms(2) Some have "int_of_float_text ?c = Inr n"
        unfolding convert_speed_to_bps_def Let_def by simp
      with m show ?thesis by (rule int_of_float_text_nonneg)
    next
      case (Some a)
      obtain number u where a: "a = (number, u)" by (cases a)
      with False assms(2) Some \<open>v = Some s\<close>
      have "scaled_int number (units_get speed_units u) = Inr n"
        unfolding convert_speed_to_bps_def Let_def by simp
      moreover have "number = takeWhile is_number_char ?c"
        using Some a by (simp add: match_speed_number)
      ultimately show ?thesis
        using scaled_int_nonneg by blast
    qed
  qed
qed

lemma convert_minus_5: "convert_to_bytes (Some ''-5'') = Inr (- 5)"
  by (simp add: convert_eval py_float_eval float_eval string_eval cong: weak_congs)

lemma parse_entrada_minus_5:
  "parse_bandwidth_data
     (''- Ontem (2024-03-15)'' @ [CHR 0x0A] @ ''--- Interface WAN'' @ [CHR 0x0A] @
      ''Entrada: -5'') =
   [\<lparr>interface = ''WAN'', data_referencia = ''2024-03-15'', periodo = ''diario'',
      entrada = Some ''-5'', saida = None, total = None, taxa_media = None\<rparr>]"
  by (simp add: parser_eval string_eval cong: weak_congs)

text \<open>
  C3, as the code has it.  When the four fields of a raw record convert, an absent field
  gives 0, and every field whose text has no minus sign gives a non-negative integer.
\<close>

theorem C3_normalized_fields:
  assumes "convert_values e = Inr (entrada_b, saida_b, total_b, taxa_bps)"
  shows "(entrada e = None \<longrightarrow> entrada_b = 0) \<and> (saida e = None \<longrightarrow> saida_b = 0)
    \<and> (total e = None \<longrightarrow> total_b = 0) \<and> (taxa_media e = None \<longrightarrow> taxa_bps = 0)
    \<and> (no_minus (entrada e) \<longrightarrow> 0 \<le> entrada_b) \<and> (no_minus (saida e) \<longrightarrow> 0 \<le> saida_b)
    \<and> (no_minus (total e) \<longrightarrow> 0 \<le> total_b) \<and> (no_minus (taxa_media e) \<longrightarrow> 0 \<le> taxa_bps)"
proof -
  from assms have c: "convert_to_bytes (entrada e) = Inr entrada_b"
    "convert_to_bytes (saida e) = Inr saida_b" "convert_to_bytes (total e) = Inr total_b"
    "convert_speed_to_bps (taxa_media e) = Inr taxa_bps"
    by (auto simp: convert_values_def split: sum.splits)
  have "entrada e = None \<longrightarrow> entrada_b = 0" "saida e = None \<longrightarrow> saida_b = 0"
    "total e = None \<longrightarrow> total_b = 0" "taxa_media e = None \<longrightarrow> taxa_bps = 0"
    using c by (auto simp: convert_to_bytes_def convert_speed_to_bps_def)
  then show ?thesis
    using c convert_to_bytes_nonneg convert_speed_to_bps_nonneg by blast
qed

theorem C3_normalized_fields_witness:
  "convert_values
     \<lparr>interface = ''WAN'', data_referencia = ''2024-03-15'', periodo = ''diario'',
      entrada = Some ''1.00GiB'', saida = None, total = None, taxa_media = None\<rparr> =
     Inr (1073741824, 0, 0, 0)
   \<and> no_minus (Some ''1.00GiB'') \<and> (0 :: int) \<le> 1073741824"
proof -
  let ?e = "\<lparr>interface = ''WAN'', data_referencia = ''2024-03-15'', periodo = ''diario'',
      entrada = Some ''1.00GiB'', saida = None, total = None, taxa_media = None\<rparr>"
  have c: "convert_values ?e = Inr (1073741824, 0, 0, 0)"
    by (simp add: convert_values_def convert_absent convert_1_00GiB)
  have n: "no_minus (Some ''1.00GiB'')"
    by (simp add: no_minus_def)
  show ?thesis
    using C3_normalized_fields [OF c] c n by simp
qed

text \<open>
  C3, as the claim states it, fails: the inbound text -5 matches no unit pattern, is read
  by \<open>py_float\<close> and converts to -5, and the upload stores -5 in \<open>entrada_bytes\<close>.
\<close>

theorem C3_negative_field:
  "convert_values
     \<lparr>interface = ''WAN'', data_referencia = ''2024-03-15'', periodo = ''diario'',
      entrada = Some ''-5'', saida = None, total = None, taxa_media = None\<rparr> =
     Inr (- 5, 0, 0, 0)
   \<and> map entrada_bytes (consumo_banda (snd (upload_data init_db
         (''- Ontem (2024-03-15)'' @ [CHR 0x0A] @ ''--- Interface WAN'' @ [CHR 0x0A] @
          ''Entrada: -5'')))) = [- 5]"
  unfolding upload_data_def parse_entrada_minus_5
  by (simp add: save_entry_def select_interface_id_def convert_values_def convert_absent
      convert_minus_5 sqlite_integer_def insert_or_replace_def make_row_def row_key_def
      init_db_def)

section \<open>Rounding to binary64\<close>

text \<open>
  \<open>ilog2\<close> is the binary exponent, \<open>scaled_round\<close> lies between the integers around the
  scaled quotient, \<open>to_double\<close> returns canonical numbers only and returns a canonical
  number unchanged; so a float times 1 is the float.
\<close>

lemma ge_pow2_real:
  assumes "0 < q"
  shows "ge_pow2 p q g = ((2::real) powi g \<le> real p / real q)"
proof (cases "0 \<le> g")
  case True
  have "(q * 2 ^ nat g \<le> p) = (real q * 2 ^ nat g \<le> real p)"
    by (metis of_nat_le_iff of_nat_mult of_nat_numeral of_nat_power)
  also have "\<dots> = ((2::real) ^ nat g \<le> real p / real q)"
    using assms by (simp add: pos_le_divide_eq mult.commute)
  finally show ?thesis
    using True by (simp add: ge_pow2_def power_int_def)
next
  case False
  have "(q \<le> p * 2 ^ nat (- g)) = (real q \<le> real p * 2 ^ nat (- g))"
    by (metis of_nat_le_iff of_nat_mult of_nat_numeral of_nat_power)
  also have "\<dots> = (1 / (2::real) ^ nat (- g) \<le> real p / real q)"
    using assms by (simp add: field_simps)
  finally show ?thesis
    using False by (simp add: ge_pow2_def power_int_def field_simps)
qed

lemma bitlen_real:
  assumes "0 < p"
  shows "(2::real) powi (bitlen (int p) - 1) \<le> real p" and "real p < 2 powi bitlen (int p)"
proof -
  have pos: "0 < int p" using assms by simp
  have b1: "1 \<le> bitlen (int p)"
    using pos by (simp add: bitlen_alt_def)
  from bitlen_bounds [OF pos]
  have lo: "2 ^ nat (bitlen (int p) - 1) \<le> int p" and hi: "int p < 2 ^ nat (bitlen (int p))"
    by simp_all
  from lo have "real_of_int (2 ^ nat (bitlen (int p) - 1)) \<le> real_of_int (int p)"
    by (simp only: of_int_le_iff)
  then show "(2::real) powi (bitlen (int p) - 1) \<le> real p"
    using b1 by (simp add: power_int_def)
  from hi have "real_of_int (int p) < real_of_int (2 ^ nat (bitlen (int p)))"
    by (simp only: of_int_less_iff)
  then show "real p < 2 powi bitlen (int p)"
    using b1 by (simp add: power_int_def)
qed

lemma ilog2_bounds:
  assumes "0 < p" "0 < q"
  shows "(2::real) powi (ilog2 p q) \<le> real p / real q"
    and "real p / real q < 2 powi (ilog2 p q + 1)"
proof -
  let ?a = "bitlen (int p)" and ?b = "bitlen (int q)"
  let ?x = "real p / real q"
  have qpos: "0 < real q" using assms by simp
  have up: "?x < 2 powi (?a - ?b + 1)"
  proof -
    have "?x < 2 powi ?a / real q"
      using bitlen_real(2) [OF assms(1)] qpos by (simp add: divide_strict_right_mono)
    also have "\<dots> \<le> 2 powi ?a / 2 powi (?b - 1)"
      using bitlen_real(1) [OF assms(2)] by (simp add: frac_le)
    also have "\<dots> = 2 powi (?a - ?b + 1)"
      by (simp add: power_int_diff [symmetric] algebra_simps)
    finally show ?thesis .
  qed
  have lo: "2 powi (?a - ?b - 1) \<le> ?x"
  proof -
    have "(2::real) powi (?a - ?b - 1) = 2 powi (?a - 1) / 2 powi ?b"
      by (simp add: power_int_diff [symmetric] algebra_simps)
    also have "\<dots> \<le> real p / 2 powi ?b"
      using bitlen_real(1) [OF assms(1)] by (simp add: divide_right_mono)
    also have "\<dots> \<le> ?x"
      using bitlen_real(2) [OF assms(2)] assms by (simp add: frac_le)
    finally show ?thesis .
  qed
  show "(2::real) powi (ilog2 p q) \<le> ?x"
    using lo ge_pow2_real [OF assms(2), of p] by (auto simp: ilog2_def Let_def)
  show "?x < 2 powi (ilog2 p q + 1)"
    using up ge_pow2_real [OF assms(2), of p] by (auto simp: ilog2_def Let_def)
qed

lemma powi2_less_D:
  assumes "(2::real) powi a < 2 powi b"
  shows "a < b"
proof (rule ccontr)
  assume "\<not> a < b"
  then have "b \<le> a" by simp
  then have "(2::real) powi b \<le> 2 powi a"
    by (rule power_int_increasing) simp
  with assms show False by simp
qed

lemma powi_interval_unique:
  assumes "(2::real) powi g \<le> x" "x < 2 powi (g + 1)" "2 powi h \<le> x" "x < 2 powi (h + 1)"
  shows "g = h"
proof -
  have "(2::real) powi g < 2 powi (h + 1)" using assms by simp
  then have "g < h + 1" by (rule powi2_less_D)
  moreover have "(2::real) powi h < 2 powi (g + 1)" using assms by simp
  then have "h < g + 1" by (rule powi2_less_D)
  ultimately show ?thesis by simp
qed

lemma ilog2_eq:
  assumes "0 < p" "0 < q" "(2::real) powi g \<le> real p / real q" "real p / real q < 2 powi (g + 1)"
  shows "ilog2 p q = g"
  using powi_interval_unique [OF ilog2_bounds [OF assms(1,2)] assms(3,4)] .

lemma round_half_even_exact: "0 < q \<Longrightarrow> round_half_even (m * q) q = m"
  by (simp add: round_half_even_def)

lemma round_half_even_ge: "0 < q \<Longrightarrow> n * q \<le> p \<Longrightarrow> n \<le> round_half_even p q"
proof -
  assume q: "0 < q" and "n * q \<le> p"
  then have "n \<le> p div q" by (simp add: less_eq_div_iff_mult_less_eq)
  then show ?thesis by (simp add: round_half_even_def Let_def)
qed

lemma round_half_even_le: "0 < q \<Longrightarrow> p \<le> n * q \<Longrightarrow> round_half_even p q \<le> n"
proof -
  assume q: "0 < q" and le: "p \<le> n * q"
  show ?thesis
  proof (cases "p = n * q")
    case True
    with q show ?thesis by (simp add: round_half_even_exact)
  next
    case False
    with le have "p < n * q" by simp
    then have "p div q < n" using q by (simp add: div_less_iff_less_mult)
    then show ?thesis by (simp add: round_half_even_def Let_def)
  qed
qed


lemma real_le_div_nat:
  assumes "0 < d"
  shows "(real n \<le> real p / real d) = (n * d \<le> p)" and "(real p / real d \<le> real n) = (p \<le> n * d)"
proof -
  have "(real n \<le> real p / real d) = (real n * real d \<le> real p)"
    using assms by (simp add: pos_le_divide_eq)
  also have "\<dots> = (n * d \<le> p)"
    by (metis of_nat_le_iff of_nat_mult)
  finally show "(real n \<le> real p / real d) = (n * d \<le> p)" .
  have "(real p / real d \<le> real n) = (real p \<le> real n * real d)"
    using assms by (simp add: pos_divide_le_eq)
  also have "\<dots> = (p \<le> n * d)"
    by (metis of_nat_le_iff of_nat_mult)
  finally show "(real p / real d \<le> real n) = (p \<le> n * d)" .
qed

lemma scaled_value:
  assumes "0 < q"
  shows "0 \<le> e \<Longrightarrow> real p / real q * 2 powi (- e) = real p / real (q * 2 ^ nat e)"
    and "\<not> 0 \<le> e \<Longrightarrow> real p / real q * 2 powi (- e) = real (p * 2 ^ nat (- e)) / real q"
  using assms by (simp_all add: power_int_def field_simps)

lemma scaled_round_ge:
  assumes "0 < q" and "real n \<le> real p / real q * 2 powi (- e)"
  shows "n \<le> scaled_round p q e"
proof (cases "0 \<le> e")
  case True
  have d: "0 < q * 2 ^ nat e" using assms(1) by simp
  have "real n \<le> real p / real (q * 2 ^ nat e)"
    using assms(2) by (simp only: scaled_value(1) [OF assms(1) True])
  then have "n * (q * 2 ^ nat e) \<le> p"
    by (simp only: real_le_div_nat(1) [OF d])
  with d True show ?thesis
    by (simp only: scaled_round_def if_True round_half_even_ge)
next
  case False
  have "real n \<le> real (p * 2 ^ nat (- e)) / real q"
    using assms(2) by (simp only: scaled_value(2) [OF assms(1) False])
  then have "n * q \<le> p * 2 ^ nat (- e)"
    by (simp only: real_le_div_nat(1) [OF assms(1)])
  with assms(1) False show ?thesis
    by (simp only: scaled_round_def if_False round_half_even_ge)
qed

lemma scaled_round_le:
  assumes "0 < q" and "real p / real q * 2 powi (- e) \<le> real n"
  shows "scaled_round p q e \<le> n"
proof (cases "0 \<le> e")
  case True
  have d: "0 < q * 2 ^ nat e" using assms(1) by simp
  have "real p / real (q * 2 ^ nat e) \<le> real n"
    using assms(2) by (simp only: scaled_value(1) [OF assms(1) True])
  then have "p \<le> n * (q * 2 ^ nat e)"
    by (simp only: real_le_div_nat(2) [OF d])
  with d True show ?thesis
    by (simp only: scaled_round_def if_True round_half_even_le)
next
  case False
  have "real (p * 2 ^ nat (- e)) / real q \<le> real n"
    using assms(2) by (simp only: scaled_value(2) [OF assms(1) False])
  then have "p * 2 ^ nat (- e) \<le> n * q"
    by (simp only: real_le_div_nat(2) [OF assms(1)])
  with assms(1) False show ?thesis
    by (simp only: scaled_round_def if_False round_half_even_le)
qed

lemma scaled_round_exact:
  assumes "0 < q" and "real p / real q = real m * 2 powi e"
  shows "scaled_round p q e = m"
proof -
  have "real p / real q * 2 powi (- e) = real m"
    by (simp add: assms(2) power_int_minus)
  then show ?thesis
    using scaled_round_ge [OF assms(1), of m p e] scaled_round_le [OF assms(1), of p e m]
    by simp
qed


lemma nat_pow2_bound:
  assumes "(2::nat) ^ a \<le> m" and "m * 2 ^ k < 2 ^ b"
  shows "a + k < b"
proof -
  have "(2::nat) ^ (a + k) = 2 ^ a * 2 ^ k" by (simp only: power_add)
  also have "\<dots> \<le> m * 2 ^ k" using assms(1) by (rule mult_le_mono1)
  also have "\<dots> < 2 ^ b" by (rule assms(2))
  finally show ?thesis
    by (rule power_less_imp_less_exp [rotated]) simp
qed

lemma scaled_round_bounds:
  assumes "0 < p" "0 < q"
  defines "e \<equiv> max (ilog2 p q) (- 1022) - 52"
  shows "scaled_round p q e \<le> 2 ^ 53"
    and "- 1022 \<le> ilog2 p q \<Longrightarrow> 2 ^ 52 \<le> scaled_round p q e"
proof -
  let ?x = "real p / real q" and ?g = "ilog2 p q"
  have lo: "2 powi ?g \<le> ?x" and hi: "?x < 2 powi (?g + 1)"
    using ilog2_bounds [OF assms(1,2)] by simp_all
  have pos: "(0::real) < 2 powi (- e)" by simp
  have "?g + 1 \<le> e + 53" by (simp add: e_def)
  then have "(2::real) powi (?g + 1) \<le> 2 powi (e + 53)"
    by (rule power_int_increasing) simp
  with hi have "?x \<le> 2 powi (e + 53)" by simp
  then have "?x * 2 powi (- e) \<le> 2 powi (e + 53) * 2 powi (- e)"
    using pos by (simp only: mult_le_cancel_right_pos)
  also have "\<dots> = 2 powi 53"
    by (simp add: power_int_add [symmetric])
  also have "\<dots> = real (2 ^ 53)"
    by simp
  finally show "scaled_round p q e \<le> 2 ^ 53"
    by (rule scaled_round_le [OF assms(2)])
  assume "- 1022 \<le> ?g"
  then have e: "e = ?g - 52" by (simp add: e_def)
  have "real (2 ^ 52) = 2 powi 52" by simp
  also have "\<dots> = 2 powi ?g * 2 powi (- e)"
    by (simp add: power_int_add [symmetric] e)
  also have "\<dots> \<le> ?x * 2 powi (- e)"
    using lo pos by (simp only: mult_le_cancel_right_pos)
  finally show "2 ^ 52 \<le> scaled_round p q e"
    by (rule scaled_round_ge [OF assms(2)])
qed

lemma to_double_canonical:
  assumes "0 < q" and "to_double neg p q = Finite n m e"
  shows "canonical m e"
proof (cases "p = 0")
  case True
  with assms(2) show ?thesis by (simp add: to_double_def canonical_def)
next
  case False
  then have p: "0 < p" by simp
  define e0 where "e0 = max (ilog2 p q) (- 1022) - 52"
  define m0 where "m0 = scaled_round p q e0"
  have le: "m0 \<le> 2 ^ 53"
    unfolding m0_def e0_def by (rule scaled_round_bounds(1) [OF p assms(1)])
  have ge: "- 1022 \<le> ilog2 p q \<Longrightarrow> 2 ^ 52 \<le> m0"
    unfolding m0_def e0_def by (rule scaled_round_bounds(2) [OF p assms(1)])
  have e0: "- 1074 \<le> e0" by (simp add: e0_def)
  define ovf where "ovf = (0 \<le> e0 \<and> (2::nat) ^ 1024 \<le> m0 * 2 ^ nat e0)"
  have td: "to_double neg p q =
      (if ovf then Infinity neg
       else if m0 = 0 then Finite neg 0 0
       else if m0 = 2 ^ 53 then Finite neg (2 ^ 52) (e0 + 1)
       else Finite neg m0 e0)"
    using False by (simp only: to_double_def Let_def e0_def m0_def ovf_def if_False)
  from assms(2) td have fin: "\<not> ovf"
    by (auto split: if_splits)
  have top: "a + nat e0 < 1024" if "0 \<le> e0" "(2::nat) ^ a \<le> m0" for a
  proof -
    from fin that(1) have "m0 * 2 ^ nat e0 < (2::nat) ^ 1024"
      by (simp only: ovf_def not_le simp_thms)
    with that(2) show ?thesis by (rule nat_pow2_bound)
  qed
  consider "m0 = 0" | "m0 = 2 ^ 53" | "0 < m0" "m0 < 2 ^ 52" | "2 ^ 52 \<le> m0" "m0 < 2 ^ 53"
    using le by linarith
  then show ?thesis
  proof cases
    case 1
    with assms(2) td fin show ?thesis by (simp add: canonical_def)
  next
    case 2
    with assms(2) td fin have m: "m = 2 ^ 52" and e: "e = e0 + 1" by simp_all
    have "e0 + 1 \<le> 971"
    proof (cases "0 \<le> e0")
      case True
      have "(2::nat) ^ 53 \<le> m0" using 2 by simp
      from top [OF True this] show ?thesis by simp
    next
      case False
      then show ?thesis by simp
    qed
    with e0 m e show ?thesis by (simp add: canonical_def)
  next
    case 3
    with assms(2) td fin have m: "m = m0" and e: "e = e0" by simp_all
    have "\<not> - 1022 \<le> ilog2 p q" using ge 3 by auto
    then have "e0 = - 1074" by (simp add: e0_def)
    with 3 m e show ?thesis by (simp add: canonical_def)
  next
    case 4
    with assms(2) td fin have m: "m = m0" and e: "e = e0" by simp_all
    have "e0 \<le> 971"
    proof (cases "0 \<le> e0")
      case True
      from top [OF True 4(1)] show ?thesis by simp
    next
      case False
      then show ?thesis by simp
    qed
    with e0 4 m e show ?thesis by (simp add: canonical_def)
  qed
qed


lemma to_double_exact:
  assumes q: "0 < q" and m: "0 < m" and x: "real p / real q = real m * 2 powi e"
    and c: "canonical m e"
  shows "to_double neg p q = Finite neg m e"
proof -
  have p: "0 < p"
  proof (rule ccontr)
    assume "\<not> 0 < p"
    then have "real p / real q = 0" by simp
    with x m show False by simp
  qed
  from p have pn: "p \<noteq> 0" by simp
  define e0 where "e0 = max (ilog2 p q) (- 1022) - 52"
  define m0 where "m0 = scaled_round p q e0"
  define ovf where "ovf = (0 \<le> e0 \<and> (2::nat) ^ 1024 \<le> m0 * 2 ^ nat e0)"
  have td: "to_double neg p q =
      (if ovf then Infinity neg
       else if m0 = 0 then Finite neg 0 0
       else if m0 = 2 ^ 53 then Finite neg (2 ^ 52) (e0 + 1)
       else Finite neg m0 e0)"
    using pn by (simp only: to_double_def Let_def e0_def m0_def ovf_def if_False)
  have lo: "2 powi ilog2 p q \<le> real m * 2 powi e" and hi: "real m * 2 powi e < 2 powi (ilog2 p q + 1)"
    using ilog2_bounds [OF p q] x by simp_all
  have pe: "(0::real) < 2 powi e" by simp
  have m53: "m < 2 ^ 53" using c m by (auto simp: canonical_def)
  have e0: "e0 = e"
  proof (cases "m < 2 ^ 52")
    case True
    with c m have e: "e = - 1074" by (auto simp: canonical_def)
    from True have "real m < real (2 ^ 52)" by (simp only: of_nat_less_iff)
    then have "real m < 2 powi 52" by simp
    then have "real m * 2 powi e < 2 powi 52 * 2 powi e"
      using pe by (simp only: mult_less_cancel_right_pos)
    also have "\<dots> = 2 powi (- 1022)"
      by (simp add: power_int_add [symmetric] e)
    finally have "2 powi ilog2 p q < (2::real) powi (- 1022)"
      using lo by simp
    then have "ilog2 p q < - 1022" by (rule powi2_less_D)
    then show ?thesis by (simp add: e0_def e)
  next
    case False
    with c m have r: "2 ^ 52 \<le> m" "- 1074 \<le> e" by (auto simp: canonical_def)
    from r(1) have "real (2 ^ 52) \<le> real m" by (simp only: of_nat_le_iff)
    then have "2 powi 52 \<le> real m" by simp
    then have "2 powi 52 * 2 powi e \<le> real m * 2 powi e"
      using pe by (simp only: mult_le_cancel_right_pos)
    then have a: "2 powi (52 + e) \<le> real p / real q"
      by (simp add: power_int_add x)
    from m53 have "real m < real (2 ^ 53)" by (simp only: of_nat_less_iff)
    then have "real m < 2 powi 53" by simp
    then have "real m * 2 powi e < 2 powi 53 * 2 powi e"
      using pe by (simp only: mult_less_cancel_right_pos)
    then have b: "real p / real q < 2 powi (52 + e + 1)"
      by (simp add: power_int_add x)
    have "ilog2 p q = 52 + e"
      by (rule ilog2_eq [OF p q a b])
    with r(2) show ?thesis by (simp add: e0_def)
  qed
  have m0: "m0 = m"
    unfolding m0_def e0 by (rule scaled_round_exact [OF q x])
  have "\<not> ovf"
  proof
    assume ovf
    then have nn: "0 \<le> e" and big: "(2::nat) ^ 1024 \<le> m * 2 ^ nat e"
      by (simp_all only: ovf_def e0 m0)
    from c m nn have "e \<le> 971" by (auto simp: canonical_def)
    then have "53 + nat e \<le> 1024" using nn by simp
    then have "(2::nat) ^ (53 + nat e) \<le> 2 ^ 1024"
      by (rule power_increasing) simp
    then have "(2::nat) ^ 53 * 2 ^ nat e \<le> 2 ^ 1024"
      by (simp only: power_add)
    moreover have "m * 2 ^ nat e < 2 ^ 53 * 2 ^ nat e"
      using m53 by simp
    ultimately have "m * 2 ^ nat e < (2::nat) ^ 1024"
      by (rule less_le_trans [rotated])
    with big show False by (simp only: not_le [symmetric] simp_thms)
  qed
  then show ?thesis
    using m m53 by (simp add: td m0 e0)
qed

lemma float_mul_int_one:
  assumes "canonical m e"
  shows "float_mul_int (Finite neg m e) 1 = Finite neg m e"
proof (cases "m = 0")
  case True
  with assms have "e = 0" by (simp add: canonical_def)
  with True show ?thesis by (simp add: float_mul_int_def to_double_def)
next
  case False
  then have m: "0 < m" by simp
  show ?thesis
  proof (cases "0 \<le> e")
    case True
    have "to_double neg (m * 1 * 2 ^ nat e) 1 = Finite neg m e"
    proof (rule to_double_exact [OF _ m _ assms])
      show "0 < (1::nat)" by simp
      show "real (m * 1 * 2 ^ nat e) / real 1 = real m * 2 powi e"
        using True by (simp add: power_int_def)
    qed
    with True show ?thesis by (simp add: float_mul_int_def)
  next
    case False
    have "to_double neg (m * 1) (2 ^ nat (- e)) = Finite neg m e"
    proof (rule to_double_exact [OF _ m _ assms])
      show "0 < (2::nat) ^ nat (- e)" by simp
      show "real (m * 1) / real (2 ^ nat (- e)) = real m * 2 powi e"
        using False by (simp add: power_int_def field_simps)
    qed
    with False show ?thesis by (simp add: float_mul_int_def)
  qed
qed

section \<open>The unit of a rate\<close>

lemma takeWhile_run:
  assumes "list_all P xs" and "ys = [] \<or> \<not> P (hd ys)"
  shows "takeWhile P (xs @ ys) = xs" and "dropWhile P (xs @ ys) = ys"
proof -
  from assms(2) have t: "takeWhile P ys = []" and d: "dropWhile P ys = ys"
    by (cases ys; simp)+
  from assms(1) have a: "\<And>x. x \<in> set xs \<Longrightarrow> P x"
    by (simp add: list_all_iff)
  show "takeWhile P (xs @ ys) = xs"
    using takeWhile_append2 [of xs P ys] a t by simp
  show "dropWhile P (xs @ ys) = ys"
    using dropWhile_append2 [of xs P ys] a d by simp
qed

lemma az_not_number: "is_az c \<Longrightarrow> \<not> is_number_char c"
  by (auto simp: is_az_def is_number_char_def is_digit_def)

lemma match_speed_shape:
  assumes "number \<noteq> []" "list_all is_number_char number" "letters \<noteq> []" "list_all is_az letters"
    and "rest = [] \<or> \<not> is_az (hd rest)"
  shows "match_speed (number @ letters @ rest) =
     (if startswith rest ''/s'' then Some (number, letters @ ''/s'') else None)"
proof -
  have "is_az (hd letters)"
    using assms(3,4) by (cases letters) simp_all
  then have "letters @ rest = [] \<or> \<not> is_number_char (hd (letters @ rest))"
    using assms(3) az_not_number by simp
  then have n: "takeWhile is_number_char (number @ letters @ rest) = number"
    "dropWhile is_number_char (number @ letters @ rest) = letters @ rest"
    using takeWhile_run [OF assms(2)] by blast+
  have l: "takeWhile is_az (letters @ rest) = letters" "dropWhile is_az (letters @ rest) = rest"
    using takeWhile_run [OF assms(4,5)] by blast+
  show ?thesis
    using assms(1,3) by (simp add: match_speed_def Let_def n l)
qed


lemma parse_decimal_canonical:
  assumes "parse_decimal neg s = Inr (Finite n m e)"
  shows "canonical m e"
proof -
  from assms obtain p q where "0 < q" and "to_double neg p q = Finite n m e"
    by (auto simp: parse_decimal_def Let_def split: if_splits option.splits
        intro: that [of 1] that [of "10 ^ k" for k])
  then show ?thesis by (rule to_double_canonical)
qed

lemma py_float_canonical:
  assumes "py_float s = Inr (Finite n m e)"
  shows "canonical m e"
  using assms
  by (auto simp: py_float_def split: if_splits prod.splits dest: parse_decimal_canonical)

lemma scaled_int_one: "scaled_int number 1 = int_of_float_text number"
proof (cases "py_float number")
  case (Inl err)
  then show ?thesis by (simp add: scaled_int_def int_of_float_text_def)
next
  case (Inr x)
  have "float_mul_int x 1 = x"
  proof (cases x)
    case (Finite n m e)
    with Inr have "canonical m e" by (simp add: py_float_canonical)
    then have "float_mul_int (Finite n m e) 1 = Finite n m e" by (rule float_mul_int_one)
    with Finite show ?thesis by (simp only:)
  qed (simp_all add: float_mul_int_def)
  with Inr show ?thesis by (simp add: scaled_int_def int_of_float_text_def)
qed

lemma int_of_float_text_10: "int_of_float_text ''10'' = Inr 10"
  by (simp add: convert_eval py_float_eval float_eval string_eval cong: weak_congs)

lemma int_of_float_text_10mbps: "int_of_float_text ''10mbps'' = Inl ValueError"
  by (simp add: convert_eval py_float_eval float_eval string_eval cong: weak_congs)

text \<open>
  C6, as the code has it.  Take a text that, in lower case and without its spaces, is a
  number (digits and points), then letters, then a rest that does not start with a letter.
  If the rest starts with \<^verbatim>\<open>/s\<close> and the letters with \<^verbatim>\<open>/s\<close> are not a unit of the table,
  \<open>convert_speed_to_bps\<close> returns \<^verbatim>\<open>int(float(number))\<close>: the multiplier is 1, and a float
  times 1 is the float.  If the rest does not start with \<^verbatim>\<open>/s\<close>, the pattern does not match
  and the whole text goes to \<^verbatim>\<open>float\<close>, which raises ValueError unless the text is a float
  literal itself.
\<close>

theorem C6_rate_unit_suffix:
  assumes "replace (lower s) '' '' [] = number @ letters @ rest"
    and "number \<noteq> []" "list_all is_number_char number"
    and "letters \<noteq> []" "list_all is_az letters"
    and "rest = [] \<or> \<not> is_az (hd rest)"
    and "s \<noteq> ''None''"
  shows "(startswith rest ''/s'' \<and> map_of speed_units (letters @ ''/s'') = None \<longrightarrow>
            convert_speed_to_bps (Some s) = int_of_float_text number)
    \<and> (\<not> startswith rest ''/s'' \<longrightarrow>
            convert_speed_to_bps (Some s) = int_of_float_text (number @ letters @ rest))"
proof -
  have "s \<noteq> []"
    using assms(1,2) by (auto simp: lower_def)
  then have "convert_speed_to_bps (Some s) =
      (case match_speed (number @ letters @ rest) of
         Some (n, u) \<Rightarrow> scaled_int n (units_get speed_units u)
       | None \<Rightarrow> int_of_float_text (number @ letters @ rest))"
    using assms(7) by (simp add: convert_speed_to_bps_def Let_def assms(1))
  then show ?thesis
    by (simp add: match_speed_shape [OF assms(2-6)] units_get_def
        scaled_int_one [unfolded One_nat_def])
qed

theorem C6_rate_unit_suffix_witness:
  "convert_speed_to_bps (Some ''10MB/s'') = Inr 10
   \<and> convert_speed_to_bps (Some ''10 mbps'') = Inl ValueError"
proof -
  have a: "replace (lower ''10MB/s'') '' '' [] = ''10'' @ ''mb'' @ ''/s''"
    by (simp add: string_eval)
  have b: "replace (lower ''10 mbps'') '' '' [] = ''10'' @ ''mbps'' @ []"
    by (simp add: string_eval)
  have n: "''10'' \<noteq> []" "list_all is_number_char ''10''"
    by (simp_all add: string_eval)
  have l1: "''mb'' \<noteq> []" "list_all is_az ''mb''" "''/s'' = [] \<or> \<not> is_az (hd ''/s'')"
    by (simp_all add: string_eval)
  have l2: "''mbps'' \<noteq> []" "list_all is_az ''mbps''" "[] = [] \<or> \<not> is_az (hd [])"
    by (simp_all add: string_eval)
  have "convert_speed_to_bps (Some ''10MB/s'') = int_of_float_text ''10''"
    using C6_rate_unit_suffix [OF a n l1] by (simp add: speed_units_def)
  moreover have "convert_speed_to_bps (Some ''10 mbps'') = int_of_float_text (''10'' @ ''mbps'' @ [])"
    using C6_rate_unit_suffix [OF b n l2] by simp
  ultimately show ?thesis
    by (simp add: int_of_float_text_10 int_of_float_text_10mbps)
qed

text \<open>
  C6, as the claim states it, fails: 10mbps is a number with a unit suffix that is not
  recognized, and \<open>convert_speed_to_bps\<close> raises ValueError on it.
\<close>

theorem C6_unit_without_per_second:
  "convert_speed_to_bps (Some ''10mbps'') = Inl ValueError"
  by (simp add: convert_eval py_float_eval float_eval string_eval cong: weak_congs)

section \<open>When the converters raise\<close>

lemma convert_to_bytes_size_float:
  "convert_to_bytes (Some s) =
     (if s = [] \<or> s = ''None'' then Inr 0 else int_or_error (size_float s))"
  by (simp add: convert_to_bytes_def size_float_def int_or_error_def scaled_int_def
      int_of_float_text_def Let_def split: option.split sum.split prod.split)

lemma convert_speed_to_bps_speed_float:
  "convert_speed_to_bps (Some s) =
     (if s = [] \<or> s = ''None'' then Inr 0 else int_or_error (speed_float s))"
  by (simp add: convert_speed_to_bps_def speed_float_def int_or_error_def scaled_int_def
      int_of_float_text_def Let_def split: option.split sum.split prod.split)

lemma int_or_error_cases:
  "int_or_error r =
     (case r of
        Inl err \<Rightarrow> Inl err
      | Inr (Finite neg m e) \<Rightarrow> Inr (toward_zero (float_val (Finite neg m e)))
      | Inr (Infinity neg) \<Rightarrow> Inl OverflowError
      | Inr NaN \<Rightarrow> Inl ValueError)"
  by (simp add: int_or_error_def py_int_toward_zero split: sum.split pyfloat.split)
    (simp add: py_int_def)

lemma entry_rows_error:
  assumes "e \<in> set es" and "entry_row db e = Inl err"
  shows "\<exists>err'. entry_rows db es = Inl err'"
  using assms by (induction es) (auto split: sum.split)

lemma entry_row_convert_error:
  assumes "select_interface_id db (interface e) \<noteq> None" and "convert_values e = Inl err"
  shows "entry_row db e = Inl err"
  using assms by (auto simp: entry_row_def)

lemma convert_abc: "convert_to_bytes (Some ''abc'') = Inl ValueError"
  by (simp add: convert_eval py_float_eval float_eval string_eval cong: weak_congs)

lemma convert_speed_abc: "convert_speed_to_bps (Some ''abc'') = Inl ValueError"
  by (simp add: convert_eval py_float_eval float_eval string_eval cong: weak_congs)

lemma convert_1_2_3GiB: "convert_to_bytes (Some ''1.2.3GiB'') = Inl ValueError"
  by (simp add: convert_eval py_float_eval float_eval string_eval cong: weak_congs)

lemma size_float_inf: "size_float ''inf'' = Inr (Infinity False)"
  by (simp add: size_float_def convert_eval py_float_eval float_eval string_eval
      cong: weak_congs)

lemma parse_good_then_bad:
  "parse_bandwidth_data
     (''- Ontem (2024-03-15)'' @ [CHR 0x0A] @ ''--- Interface WAN'' @ [CHR 0x0A] @
      ''Entrada: 1.00GiB'' @ [CHR 0x0A] @ ''--- Interface DI'' @ [CHR 0x0A] @
      ''Entrada: abc'') =
   [\<lparr>interface = ''WAN'', data_referencia = ''2024-03-15'', periodo = ''diario'',
      entrada = Some ''1.00GiB'', saida = None, total = None, taxa_media = None\<rparr>,
    \<lparr>interface = ''DI'', data_referencia = ''2024-03-15'', periodo = ''diario'',
      entrada = Some ''abc'', saida = None, total = None, taxa_media = None\<rparr>]"
  by (simp add: parser_eval string_eval cong: weak_congs)

text \<open>
  C2, as the code has it.  Both converters return 0 for an absent value, the empty string
  and \<open>None\<close>.  For every other text they return an integer exactly when \<^verbatim>\<open>float\<close> accepts
  the numeric text and the float they compute is finite, and the integer is that float
  truncated toward zero; they raise the ValueError of \<^verbatim>\<open>float\<close> on a text it rejects, a
  ValueError on a NaN and an OverflowError on an infinity.  The error is not absorbed: when
  the values of a parsed record of a known interface do not convert, the upload answers
  with a failure and leaves the database as it was, whatever the other records are.
\<close>

theorem C2_converters_return_or_raise:
  "convert_to_bytes None = Inr 0 \<and> convert_speed_to_bps None = Inr 0
   \<and> (\<forall>s. convert_to_bytes (Some s) =
          (if s = [] \<or> s = ''None'' then Inr 0
           else case size_float s of
                  Inl err \<Rightarrow> Inl err
                | Inr (Finite neg m e) \<Rightarrow> Inr (toward_zero (float_val (Finite neg m e)))
                | Inr (Infinity neg) \<Rightarrow> Inl OverflowError
                | Inr NaN \<Rightarrow> Inl ValueError))
   \<and> (\<forall>s. convert_speed_to_bps (Some s) =
          (if s = [] \<or> s = ''None'' then Inr 0
           else case speed_float s of
                  Inl err \<Rightarrow> Inl err
                | Inr (Finite neg m e) \<Rightarrow> Inr (toward_zero (float_val (Finite neg m e)))
                | Inr (Infinity neg) \<Rightarrow> Inl OverflowError
                | Inr NaN \<Rightarrow> Inl ValueError))
   \<and> (\<forall>db t e err.
          e \<in> set (parse_bandwidth_data t) \<and> select_interface_id db (interface e) \<noteq> None
          \<and> convert_values e = Inl err \<longrightarrow>
          (\<exists>err'. upload_data db t = (failure (Erro err'), db)))"
proof -
  have abort: "\<exists>err'. upload_data db t = (failure (Erro err'), db)"
    if "e \<in> set (parse_bandwidth_data t)" "select_interface_id db (interface e) \<noteq> None"
      "convert_values e = Inl err" for db t e err
  proof -
    have "entry_row db e = Inl err"
      using that(2,3) by (rule entry_row_convert_error)
    with that(1) obtain err' where "entry_rows db (parse_bandwidth_data t) = Inl err'"
      using entry_rows_error by blast
    moreover have "parse_bandwidth_data t \<noteq> []"
      using that(1) by auto
    ultimately show ?thesis
      by (auto simp: upload_data_entry_rows)
  qed
  show ?thesis
    using abort
    by (simp add: convert_absent convert_to_bytes_size_float convert_speed_to_bps_speed_float
        int_or_error_cases) blast
qed

theorem C2_converters_return_or_raise_witness:
  "convert_to_bytes (Some ''inf'') = Inl OverflowError
   \<and> (\<exists>err. upload_data init_db
         (''- Ontem (2024-03-15)'' @ [CHR 0x0A] @ ''--- Interface WAN'' @ [CHR 0x0A] @
          ''Entrada: 1.00GiB'' @ [CHR 0x0A] @ ''--- Interface DI'' @ [CHR 0x0A] @
          ''Entrada: abc'') = (failure (Erro err), init_db))"
proof -
  let ?t = "''- Ontem (2024-03-15)'' @ [CHR 0x0A] @ ''--- Interface WAN'' @ [CHR 0x0A] @
          ''Entrada: 1.00GiB'' @ [CHR 0x0A] @ ''--- Interface DI'' @ [CHR 0x0A] @
          ''Entrada: abc''"
  let ?e = "\<lparr>interface = ''DI'', data_referencia = ''2024-03-15'', periodo = ''diario'',
      entrada = Some ''abc'', saida = None, total = None, taxa_media = None\<rparr>"
  have a: "?e \<in> set (parse_bandwidth_data ?t)"
    unfolding parse_good_then_bad by simp
  have b: "select_interface_id init_db (interface ?e) \<noteq> None"
    by (simp add: select_interface_id_def init_db_def)
  have c: "convert_values ?e = Inl ValueError"
    by (simp add: convert_values_def convert_abc)
  have "convert_to_bytes (Some ''inf'') =
      (if ''inf'' = [] \<or> ''inf'' = ''None'' then Inr 0
       else case size_float ''inf'' of
              Inl err \<Rightarrow> Inl err
            | Inr (Finite neg m e) \<Rightarrow> Inr (toward_zero (float_val (Finite neg m e)))
            | Inr (Infinity neg) \<Rightarrow> Inl OverflowError
            | Inr NaN \<Rightarrow> Inl ValueError)"
    using C2_converters_return_or_raise by blast
  then have "convert_to_bytes (Some ''inf'') = Inl OverflowError"
    by (simp add: size_float_inf)
  moreover have "\<exists>err. upload_data init_db ?t = (failure (Erro err), init_db)"
    using C2_converters_return_or_raise a b c by blast
  ultimately show ?thesis by blast
qed

text \<open>
  C2, as the claim states it, fails: the converters raise ValueError on \<open>abc\<close> and on
  \<open>1.2.3GiB\<close>, and a report whose second section has the inbound value \<open>abc\<close> is
  rejected as a whole, its valid first section included.
\<close>

theorem C2_malformed_text_raises:
  "convert_to_bytes (Some ''abc'') = Inl ValueError
   \<and> convert_speed_to_bps (Some ''abc'') = Inl ValueError
   \<and> convert_to_bytes (Some ''1.2.3GiB'') = Inl ValueError
   \<and> upload_data init_db
        (''- Ontem (2024-03-15)'' @ [CHR 0x0A] @ ''--- Interface WAN'' @ [CHR 0x0A] @
         ''Entrada: 1.00GiB'' @ [CHR 0x0A] @ ''--- Interface DI'' @ [CHR 0x0A] @
         ''Entrada: abc'') = (failure (Erro ValueError), init_db)"
proof -
  have "upload_data init_db
        (''- Ontem (2024-03-15)'' @ [CHR 0x0A] @ ''--- Interface WAN'' @ [CHR 0x0A] @
         ''Entrada: 1.00GiB'' @ [CHR 0x0A] @ ''--- Interface DI'' @ [CHR 0x0A] @
         ''Entrada: abc'') = (failure (Erro ValueError), init_db)"
    unfolding upload_data_def parse_good_then_bad
    by (simp add: save_entry_def select_interface_id_def convert_values_def convert_absent
        convert_1_00GiB convert_abc sqlite_integer_def insert_or_replace_def make_row_def
        row_key_def init_db_def)
  then show ?thesis
    using convert_abc convert_speed_abc convert_1_2_3GiB by simp
qed

end
